theory Spec2Isabelle
  imports Complex_Main "HOL-Library.Multiset"
begin

section \<open>Number model and configuration (simulationConfig.ts)\<close>

text \<open>
  A TypeScript \<open>number\<close> is an IEEE 754 binary64 value. A finite one is modelled by the
  \<^typ>\<open>real\<close> that it denotes, and \<open>fl\<close> rounds a real to the nearest binary64 value:
  \<open>expo\<close> is the binary exponent, not below \<open>- 1022\<close> (gradual underflow), \<open>ulp\<close> the
  spacing of the binary64 values at that exponent (52 fraction bits), and \<open>rhe\<close> rounds
  to the nearest integer, a tie to the even one. Overflow to an infinity is not
  modelled: \<open>fl\<close> rounds as if the exponent had no upper limit.

  The operations on whose rounding a status, an order, an admission or a zero depends in
  the statements below are rounded operations: the subtraction of \<open>runStep\<close>, the
  accumulator of \<open>BaselineScheduler.schedule\<close>, the urgency scores and the differences of
  the sort comparator, and the exponential of \<open>calculateIrradiance\<close>. The other
  formulas (the value of \<open>urgencyScore\<close>, the accumulator of \<open>SmartScheduler.schedule\<close>,
  the trigonometric expressions, the energies, temperatures and costs of the simulation)
  are over the reals that the binary64 values denote, without rounding; what is stated
  about them is a value or a bound. The one place where the source divides by a
  possibly zero number and a statement depends on it (the solar percentage of the
  metrics) uses the explicit type \<open>jsnum\<close> below.
\<close>

definition rhe :: "real \<Rightarrow> int" where
  "rhe x = (let f = \<lfloor>x\<rfloor> in
     if x - of_int f < 1 / 2 then f
     else if 1 / 2 < x - of_int f then f + 1
     else if even f then f else f + 1)"

definition expo :: "real \<Rightarrow> int" where
  "expo x = max (- 1022) \<lfloor>log 2 \<bar>x\<bar>\<rfloor>"

definition ulp :: "real \<Rightarrow> real" where
  "ulp x = 2 powr of_int (expo x - 52)"

definition fl :: "real \<Rightarrow> real" where
  "fl x = (if x = 0 then 0 else of_int (rhe (x / ulp x)) * ulp x)"

text \<open>The operators \<open>+\<close>, \<open>-\<close> and \<open>/\<close> on binary64 values, and the literal \<open>0.1\<close>.\<close>

definition fadd :: "real \<Rightarrow> real \<Rightarrow> real" where
  "fadd a b = fl (a + b)"

definition fsub :: "real \<Rightarrow> real \<Rightarrow> real" where
  "fsub a b = fl (a - b)"

definition fdiv :: "real \<Rightarrow> real \<Rightarrow> real" where
  "fdiv a b = fl (a / b)"

definition tenth :: real where
  "tenth = 3602879701896397 / 36028797018963968"

text \<open>
  \<open>Math.exp\<close>, taken as the correctly rounded exponential: it is 0 for an argument below
  \<open>- 1075 ln 2\<close>, about \<open>- 745.13\<close>, where the exponential is at most half the least
  positive binary64 value.
\<close>

definition Math_exp :: "real \<Rightarrow> real" where
  "Math_exp x = fl (exp x)"

definition SIMULATION_START_HOUR :: real where "SIMULATION_START_HOUR = 0"
definition SIMULATION_END_HOUR :: real where "SIMULATION_END_HOUR = 24"
definition TIME_STEP_MINUTES :: real where "TIME_STEP_MINUTES = 10"

definition MAX_DATA_HUB_POWER :: real where "MAX_DATA_HUB_POWER = 10"
definition BASELINE_BACKGROUND_LOAD :: real where "BASELINE_BACKGROUND_LOAD = 3"

definition IDEAL_TEMP :: real where "IDEAL_TEMP = 25"
definition THERMAL_THRESHOLD :: real where "THERMAL_THRESHOLD = 32"
definition HEAT_ACCUMULATION :: real where "HEAT_ACCUMULATION = 15 / 100"
definition THERMAL_DISSIPATION :: real where "THERMAL_DISSIPATION = 5 / 100"

definition TEMP_THRESHOLD :: real where "TEMP_THRESHOLD = 25"
definition COOLING_FACTOR :: real where "COOLING_FACTOR = 5 / 10"
definition COOLING_EFFICIENCY :: real where "COOLING_EFFICIENCY = 6 / 10"
definition COOLING_COP :: real where "COOLING_COP = 3"
definition LOAD_COOLING_FACTOR :: real where "LOAD_COOLING_FACTOR = 5 / 100"

definition MAX_SOLAR_KW :: real where "MAX_SOLAR_KW = 8"
definition SOLAR_EFFICIENCY :: real where "SOLAR_EFFICIENCY = 85 / 100"

definition GRID_CARBON_INTENSITY :: real where "GRID_CARBON_INTENSITY = 7 / 10"
definition DEADLINE_PENALTY_KWH :: real where "DEADLINE_PENALTY_KWH = 2"

section \<open>The Job class (smartScheduler.ts)\<close>

datatype priority = High | Medium | Low | Critical

datatype status = WAITING | RUNNING | DONE

text \<open>
  The fields of class \<open>Job\<close>. The field \<open>id\<close>, a random token drawn by the
  constructor and read by no method, scheduler or simulation code, is left out: a job
  object is identified by its position in the scheduler's \<open>jobs\<close> array (see the store
  below).
\<close>

record job =
  name :: string
  powerKw :: real
  duration :: real
  remaining :: real
  priority :: priority
  deadline :: "real option"
  status :: status
  penalized :: bool
  startHour :: "real option"
  flexible :: bool

text \<open>\<open>String.prototype.toLowerCase\<close> on the ASCII letters.\<close>

definition toLowerCase_char :: "char \<Rightarrow> char" where
  "toLowerCase_char c =
     (if 65 \<le> (of_char c :: nat) \<and> (of_char c :: nat) \<le> 90
      then char_of ((of_char c :: nat) + 32) else c)"

definition toLowerCase :: "string \<Rightarrow> string" where
  "toLowerCase s = map toLowerCase_char s"

definition normalizePriority :: "string \<Rightarrow> priority" where
  "normalizePriority p =
     (let lower = toLowerCase p in
      if lower = ''high'' then High
      else if lower = ''medium'' then Medium
      else if lower = ''low'' then Low
      else if lower = ''critical'' then Critical
      else Medium)"

text \<open>The constructor, with its parameters in the order of the source.\<close>

definition new_Job :: "string \<Rightarrow> real \<Rightarrow> real \<Rightarrow> string \<Rightarrow> real option \<Rightarrow> bool \<Rightarrow> job" where
  "new_Job nm pw durationMin prio deadlineHour flex =
     \<lparr> name = nm, powerKw = pw, duration = durationMin, remaining = durationMin,
       priority = normalizePriority prio, deadline = deadlineHour, status = WAITING,
       penalized = False, startHour = None, flexible = flex \<rparr>"

definition start :: "real \<Rightarrow> job \<Rightarrow> job" where
  "start currentHour j =
     (if status j = WAITING
      then j\<lparr> status := RUNNING,
              startHour := (if startHour j = None then Some currentHour else startHour j) \<rparr>
      else j)"

definition runStep :: "real \<Rightarrow> real \<Rightarrow> job \<Rightarrow> job" where
  "runStep dtMin currentHour j =
     (if status j = DONE then j
      else
        let j1 = (if status j = WAITING then start currentHour j else j);
            j2 = j1\<lparr> remaining := fsub (remaining j1) dtMin \<rparr>
        in if remaining j2 \<le> 0 then j2\<lparr> remaining := 0, status := DONE \<rparr> else j2)"

text \<open>\<open>deadlineMissed\<close> returns its boolean together with the updated object.\<close>

definition deadlineMissed :: "real \<Rightarrow> job \<Rightarrow> bool \<times> job" where
  "deadlineMissed currentHour j =
     (case deadline j of
        None \<Rightarrow> (False, j)
      | Some d \<Rightarrow>
          if currentHour > d \<and> status j \<noteq> DONE \<and> \<not> penalized j
          then (True, j\<lparr> penalized := True \<rparr>)
          else (False, j))"

definition urgencyScore :: "real \<Rightarrow> job \<Rightarrow> real" where
  "urgencyScore currentHour j =
     (case deadline j of
        None \<Rightarrow> 0
      | Some d \<Rightarrow>
          let hoursUntilDeadline = d - currentHour;
              hoursNeeded = remaining j / 60
          in if hoursUntilDeadline \<le> 0 then 999 else hoursNeeded / hoursUntilDeadline)"

text \<open>
  \<open>urgencyScore\<close> above is the formula of the method over the reals. The binary64 value
  that a call of the method returns, with each operation rounded, is \<open>urgencyScore_fl\<close>;
  it is what the sort comparator below compares.
\<close>

definition urgencyScore_fl :: "real \<Rightarrow> job \<Rightarrow> real" where
  "urgencyScore_fl currentHour j =
     (case deadline j of
        None \<Rightarrow> 0
      | Some d \<Rightarrow>
          let hoursUntilDeadline = fsub d currentHour;
              hoursNeeded = fdiv (remaining j) 60
          in if hoursUntilDeadline \<le> 0 then 999 else fdiv hoursNeeded hoursUntilDeadline)"

text \<open>
  A call sequence on one job object: the three methods a client can call, and the
  list of booleans that the \<open>deadlineMissed\<close> calls of the sequence return.
\<close>

datatype job_call = Start real | RunStep real real | DeadlineMissed real

fun call :: "job_call \<Rightarrow> job \<Rightarrow> bool list \<times> job" where
  "call (Start h) j = ([], start h j)"
| "call (RunStep dt h) j = ([], runStep dt h j)"
| "call (DeadlineMissed h) j = ([fst (deadlineMissed h j)], snd (deadlineMissed h j))"

fun calls :: "job_call list \<Rightarrow> job \<Rightarrow> bool list \<times> job" where
  "calls [] j = ([], j)"
| "calls (c # cs) j =
     (fst (call c j) @ fst (calls cs (snd (call c j))), snd (calls cs (snd (call c j))))"

text \<open>
  The minutes advanced by a call sequence: the sum of the \<open>dtMin\<close> arguments of its
  \<open>runStep\<close> calls; and the condition that each of them is non-negative.
\<close>

fun advanced :: "job_call list \<Rightarrow> real" where
  "advanced [] = 0"
| "advanced (RunStep dt h # cs) = dt + advanced cs"
| "advanced (Start h # cs) = advanced cs"
| "advanced (DeadlineMissed h # cs) = advanced cs"

fun nonneg_dt :: "job_call \<Rightarrow> bool" where
  "nonneg_dt (RunStep dt h) = (0 \<le> dt)"
| "nonneg_dt (Start h) = True"
| "nonneg_dt (DeadlineMissed h) = True"

text \<open>The sum of the \<open>dtMin\<close> arguments, accumulated in binary64 from \<open>acc\<close>.\<close>

fun advanced_fl :: "job_call list \<Rightarrow> real \<Rightarrow> real" where
  "advanced_fl [] acc = acc"
| "advanced_fl (RunStep dt h # cs) acc = advanced_fl cs (fadd acc dt)"
| "advanced_fl (Start h # cs) acc = advanced_fl cs acc"
| "advanced_fl (DeadlineMissed h # cs) acc = advanced_fl cs acc"

text \<open>A whole number; and the condition that each \<open>dtMin\<close> of a call sequence is one.\<close>

definition whole :: "real \<Rightarrow> bool" where
  "whole x = (of_int \<lfloor>x\<rfloor> = x)"

fun whole_dt :: "job_call \<Rightarrow> bool" where
  "whole_dt (RunStep dt h) = whole dt"
| "whole_dt (Start h) = True"
| "whole_dt (DeadlineMissed h) = True"

text \<open>
  The invariant of a job that was built with a positive binary64 duration: \<open>remaining\<close>
  is a binary64 value, not negative, and 0 exactly when the status is DONE.
\<close>

definition remaining_inv :: "job \<Rightarrow> bool" where
  "remaining_inv j =
     (fl (remaining j) = remaining j \<and> 0 \<le> remaining j
      \<and> (status j = DONE) = (remaining j = 0))"

text \<open>
  The invariant of a job that was built with the whole duration \<open>d\<close> and has been
  advanced by \<open>a\<close> minutes since, in whole steps.
\<close>

definition progress_inv :: "real \<Rightarrow> real \<Rightarrow> job \<Rightarrow> bool" where
  "progress_inv d a j =
     (whole a \<and> 0 \<le> a
      \<and> (if status j = DONE then remaining j = 0 \<and> d \<le> a
          else remaining j = d - a \<and> a < d))"

section \<open>The schedulers (smartScheduler.ts)\<close>

text \<open>
  Job objects are mutable and shared between the scheduler's \<open>jobs\<close> array, the arrays
  that \<open>schedule\<close> builds and returns, and the simulation's set of running jobs. The
  store of a scheduler is its \<open>jobs\<close> array, a \<^typ>\<open>job list\<close>; a reference to a job
  object is its index there (the simulation pushes every object it constructs exactly
  once), and a \<open>Job[]\<close> value is a list of references. A method call on the object
  behind reference \<open>i\<close> updates the store at \<open>i\<close>.
\<close>

definition waiting_refs :: "job list \<Rightarrow> nat list" where
  "waiting_refs jobs = filter (\<lambda>i. status (jobs ! i) = WAITING) [0..<length jobs]"

definition pMap :: "priority \<Rightarrow> real" where
  "pMap p = (case p of Critical \<Rightarrow> - 1 | High \<Rightarrow> 0 | Medium \<Rightarrow> 1 | Low \<Rightarrow> 2)"

text \<open>The comparator that \<open>prioritizeJobs\<close> passes to \<open>sort\<close>.\<close>

definition compareJobs :: "real \<Rightarrow> job \<Rightarrow> job \<Rightarrow> real" where
  "compareJobs currentHour a b =
     (if pMap (priority a) \<noteq> pMap (priority b) then pMap (priority a) - pMap (priority b)
      else
        let urgencyA = urgencyScore_fl currentHour a;
            urgencyB = urgencyScore_fl currentHour b
        in if \<bar>fsub urgencyA urgencyB\<bar> > tenth then fsub urgencyB urgencyA
           else fsub (powerKw a) (powerKw b))"

text \<open>
  \<open>Array.prototype.sort\<close> with a comparator is a built-in of the language. ECMAScript
  requires it to be stable and to return a permutation; when the comparator is not a
  consistent ordering of the elements, the order of the result is left to the
  implementation. The model is the stable insertion sort: an element goes before the
  first element of the sorted rest that it does not compare greater than.
\<close>

fun sort_insert :: "('a \<Rightarrow> 'a \<Rightarrow> real) \<Rightarrow> 'a \<Rightarrow> 'a list \<Rightarrow> 'a list" where
  "sort_insert cmp x [] = [x]"
| "sort_insert cmp x (y # ys) =
     (if cmp x y \<le> 0 then x # y # ys else y # sort_insert cmp x ys)"

fun array_sort :: "('a \<Rightarrow> 'a \<Rightarrow> real) \<Rightarrow> 'a list \<Rightarrow> 'a list" where
  "array_sort cmp [] = []"
| "array_sort cmp (x # xs) = sort_insert cmp x (array_sort cmp xs)"

definition prioritizeJobs :: "job list \<Rightarrow> nat list \<Rightarrow> real \<Rightarrow> real \<Rightarrow> nat list" where
  "prioritizeJobs store jobs currentHour solarKw =
     array_sort (\<lambda>a b. compareJobs currentHour (store ! a) (store ! b)) jobs"

text \<open>
  The body of the \<open>for\<close> loop of \<open>SmartScheduler.schedule\<close> for one job reference; the
  loop state is the store, \<open>runningJobs\<close> and \<open>totalPowerUsed\<close>. The accumulator
  \<open>totalPowerUsed\<close> is summed over the reals: what is stated about it below is a bound
  on the sum of the admitted powers.
\<close>

definition smart_body :: "real \<Rightarrow> real \<Rightarrow> real \<Rightarrow> job list \<times> nat list \<times> real \<Rightarrow> nat
    \<Rightarrow> job list \<times> nat list \<times> real" where
  "smart_body solarAvailableKw currentTemp currentHour st i =
     (case st of (store, runningJobs, totalPowerUsed) \<Rightarrow>
        let job = store ! i in
        if currentTemp > THERMAL_THRESHOLD \<and> priority job = Low then st
        else if priority job = Medium \<and> solarAvailableKw < 1 \<and> flexible job then st
        else if totalPowerUsed + powerKw job \<le> MAX_DATA_HUB_POWER
             then (store[i := start currentHour job], runningJobs @ [i],
                   totalPowerUsed + powerKw job)
             else st)"

definition smart_loop :: "real \<Rightarrow> real \<Rightarrow> real \<Rightarrow> nat list \<Rightarrow> job list \<times> nat list \<times> real
    \<Rightarrow> job list \<times> nat list \<times> real" where
  "smart_loop solarAvailableKw currentTemp currentHour sortedJobs st =
     foldl (smart_body solarAvailableKw currentTemp currentHour) st sortedJobs"

text \<open>\<open>schedule\<close> returns \<open>runningJobs\<close>; the model returns the updated store with it.\<close>

definition SmartScheduler_schedule :: "real \<Rightarrow> real \<Rightarrow> real \<Rightarrow> job list \<Rightarrow> nat list \<times> job list" where
  "SmartScheduler_schedule solarAvailableKw currentTemp currentHour jobs =
     (let waitingJobs = waiting_refs jobs;
          sortedJobs = prioritizeJobs jobs waitingJobs currentHour solarAvailableKw;
          fin = smart_loop solarAvailableKw currentTemp currentHour sortedJobs (jobs, [], 0)
      in (fst (snd fin), fst fin))"

text \<open>The loop of \<open>BaselineScheduler.schedule\<close>; the \<open>break\<close> ends the recursion.\<close>

fun baseline_loop :: "real \<Rightarrow> nat list \<Rightarrow> job list \<times> nat list \<times> real
    \<Rightarrow> job list \<times> nat list \<times> real" where
  "baseline_loop hour [] st = st"
| "baseline_loop hour (i # rest) (store, runningJobs, totalPower) =
     (if fadd totalPower (powerKw (store ! i)) \<le> MAX_DATA_HUB_POWER
      then baseline_loop hour rest
             (store[i := start hour (store ! i)], runningJobs @ [i],
              fadd totalPower (powerKw (store ! i)))
      else (store, runningJobs, totalPower))"

definition BaselineScheduler_schedule :: "real \<Rightarrow> real \<Rightarrow> real \<Rightarrow> job list \<Rightarrow> nat list \<times> job list" where
  "BaselineScheduler_schedule solar temp hour jobs =
     (let waiting = waiting_refs jobs;
          fin = baseline_loop hour waiting (jobs, [], BASELINE_BACKGROUND_LOAD)
      in (fst (snd fin), fst fin))"

section \<open>Physics models (physicsModels.ts)\<close>

definition D2R :: real where "D2R = pi / 180"

text \<open>
  The local constants \<open>deltaRad\<close> and \<open>sinAlpha\<close> of \<open>calculateIrradiance\<close>, as
  functions of its parameters.
\<close>

definition deltaRad :: "real \<Rightarrow> real" where
  "deltaRad dayOfYear =
     (let delta = (2345 / 100) * sin ((360 / 365) * (284 + dayOfYear) * D2R)
      in delta * D2R)"

definition sinAlpha :: "real \<Rightarrow> real \<Rightarrow> real \<Rightarrow> real" where
  "sinAlpha dayOfYear hour latitude =
     (let latRad = latitude * D2R;
          omega = 15 * (hour - 12);
          omegaRad = omega * D2R
      in sin latRad * sin (deltaRad dayOfYear)
         + cos latRad * cos (deltaRad dayOfYear) * cos omegaRad)"

text \<open>
  The optional parameter \<open>tilt\<close> is an option; \<open>tilt ?? latitude\<close> reads it. The
  local constant \<open>alpha\<close> (the arc sine of \<open>sinAlpha\<close>) is computed by the source
  and used nowhere; it is left out.
\<close>

definition calculateIrradiance :: "real \<Rightarrow> real \<Rightarrow> real \<Rightarrow> real option \<Rightarrow> real" where
  "calculateIrradiance dayOfYear hour latitude tilt =
     (let tiltRad = (case tilt of None \<Rightarrow> latitude | Some t \<Rightarrow> t) * D2R;
          omega = 15 * (hour - 12);
          omegaRad = omega * D2R
      in if sinAlpha dayOfYear hour latitude \<le> 0 then 0
         else
           let A = 1160;
               B = 168 / 1000;
               Ibn = A * Math_exp (- B / sinAlpha dayOfYear hour latitude);
               effLatRad = (latitude - (case tilt of None \<Rightarrow> latitude | Some t \<Rightarrow> t)) * D2R;
               cosTheta = sin effLatRad * sin (deltaRad dayOfYear)
                          + cos effLatRad * cos (deltaRad dayOfYear) * cos omegaRad;
               I_beam = Ibn * max 0 cosTheta;
               C = 95 / 1000;
               I_diffuse = C * Ibn * ((1 + cos tiltRad) / 2);
               rho = 2 / 10;
               I_reflected = Ibn * (sinAlpha dayOfYear hour latitude + C) * rho
                             * ((1 - cos tiltRad) / 2)
           in max 0 (I_beam + I_diffuse + I_reflected))"

text \<open>A defaulted parameter is an option: \<open>None\<close> when the caller passes \<open>undefined\<close>.\<close>

definition getSolarPower :: "real \<Rightarrow> real option \<Rightarrow> real option \<Rightarrow> real option \<Rightarrow> real" where
  "getSolarPower hour maxPowerKw latitude dayOfYear =
     (let maxPowerKw' = (case maxPowerKw of None \<Rightarrow> MAX_SOLAR_KW | Some m \<Rightarrow> m);
          latitude' = (case latitude of None \<Rightarrow> 21 | Some l \<Rightarrow> l);
          dayOfYear' = (case dayOfYear of None \<Rightarrow> 172 | Some d \<Rightarrow> d);
          irradiance = calculateIrradiance dayOfYear' hour latitude' (Some latitude');
          outputKw = maxPowerKw' * (irradiance / 1000) * SOLAR_EFFICIENCY
      in outputKw)"

definition DEF_MIN_TEMP :: real where "DEF_MIN_TEMP = 26"
definition DEF_MAX_TEMP :: real where "DEF_MAX_TEMP = 42"
definition PEAK_TEMP_HOUR :: real where "PEAK_TEMP_HOUR = 14"

text \<open>The remainder operator \<open>%\<close> of the language: the quotient is truncated towards zero.\<close>

definition js_rem :: "real \<Rightarrow> real \<Rightarrow> real" where
  "js_rem x y = x - y * of_int (if 0 \<le> x / y then \<lfloor>x / y\<rfloor> else \<lceil>x / y\<rceil>)"

definition getAmbientTemp :: "real \<Rightarrow> real option \<Rightarrow> real option \<Rightarrow> real" where
  "getAmbientTemp hour minTemp maxTemp =
     (let minTemp' = (case minTemp of None \<Rightarrow> DEF_MIN_TEMP | Some m \<Rightarrow> m);
          maxTemp' = (case maxTemp of None \<Rightarrow> DEF_MAX_TEMP | Some m \<Rightarrow> m);
          h = js_rem hour 24;
          avg = (minTemp' + maxTemp') / 2;
          amp = (maxTemp' - minTemp') / 2;
          phase = (h - PEAK_TEMP_HOUR) * (2 * pi / 24)
      in avg + amp * cos phase)"

definition getCoolingPowerKw :: "real \<Rightarrow> real \<Rightarrow> real" where
  "getCoolingPowerKw hubTemp computeLoadKw =
     (if hubTemp \<le> TEMP_THRESHOLD then 0
      else
        let excess = hubTemp - TEMP_THRESHOLD;
            coolingReq = COOLING_FACTOR * excess + LOAD_COOLING_FACTOR * computeLoadKw;
            electricalPower = coolingReq / COOLING_COP
        in max 0 electricalPower)"

section \<open>The simulation (simulation.ts)\<close>

definition getGridPrice :: "real \<Rightarrow> real" where
  "getGridPrice hour =
     (if hour < 6 then 4 else if hour \<ge> 18 \<and> hour < 22 then 12 else 8)"

text \<open>
  A \<open>StandardizedPoint\<close>. Its \<open>timestamp\<close> is read through \<open>Number(p.timestamp)\<close>
  when it is not \<open>null\<close>: the field holds that number, and \<open>None\<close> stands for \<open>null\<close>
  and for a text that is no number (its key NaN equals no hour that is looked up). The
  field \<open>extras\<close> is not read by the simulation.
\<close>

record point =
  timestamp :: "real option"
  pvalue :: real

definition stamp_map :: "point list \<Rightarrow> real \<Rightarrow> real option" where
  "stamp_map data =
     foldl (\<lambda>m p. case timestamp p of None \<Rightarrow> m | Some t \<Rightarrow> m(t \<mapsto> pvalue p)) Map.empty data"

text \<open>\<open>createLookup\<close>: an absent (\<open>undefined\<close>) array is \<open>None\<close>.\<close>

definition createLookup :: "point list option \<Rightarrow> real \<Rightarrow> real option" where
  "createLookup data =
     (case data of
        None \<Rightarrow> (\<lambda>h. None)
      | Some ps \<Rightarrow>
          if length ps = 0 then (\<lambda>h. None)
          else (\<lambda>h. case stamp_map ps h of
                       Some v \<Rightarrow> Some v
                     | None \<Rightarrow>
                         let idx = \<lfloor>h\<rfloor>
                         in if 0 \<le> idx \<and> idx < int (length ps)
                            then Some (pvalue (ps ! nat idx)) else None))"

record simulationConfig =
  maxSolarKw :: "real option"
  minTemp :: "real option"
  maxTemp :: "real option"
  latitude :: "real option"
  dayOfYear :: "real option"

record files =
  solar :: "point list option"
  weather :: "point list option"
  loads :: "point list option"

text \<open>
  An element of \<open>appliances\<close> (typed \<open>any\<close>): the fields that the simulation reads, with
  \<open>app_power\<close> the number that \<open>parseFloat(app.power)\<close> returns and \<open>None\<close> for an
  absent field. \<open>app_deadlineHour\<close> is the \<open>deadlineHour\<close> of a job specification;
  the simulation reads no such field.
\<close>

record appliance =
  app_name :: string
  app_power :: real
  app_duration :: "real option"
  app_priority :: string
  app_deadlineHour :: "real option"
  app_flexible :: "bool option"

text \<open>The job that the \<open>forEach\<close> over \<open>appliances\<close> constructs for one element.\<close>

definition job_of_appliance :: "appliance \<Rightarrow> job" where
  "job_of_appliance app =
     new_Job (app_name app) (app_power app)
       (case app_duration app of
          None \<Rightarrow> 120
        | Some d \<Rightarrow> if d \<noteq> 0 then d * 60 else 120)
       (app_priority app)
       (Some 18)
       (app_flexible app \<noteq> Some False)"

record logs =
  log_time :: "real list"
  log_solar :: "real list"
  log_grid :: "real list"
  log_temp :: "real list"
  log_cooling :: "real list"
  log_cost :: "real list"

text \<open>
  The variables of \<open>runSmartSimulation\<close> that the loop updates; \<open>scheduler_jobs\<close>
  is \<open>scheduler.jobs\<close>, the store, and \<open>currentlyRunning\<close> the set of references in
  insertion order.
\<close>

record sim =
  scheduler_jobs :: "job list"
  currentlyRunning :: "nat list"
  gridEnergy :: real
  solarEnergy :: real
  coolingEnergy :: real
  carbon :: real
  slaViolations :: nat
  accumulatedCost :: real
  simLogs :: logs
  currentTemp :: real
  currentHour :: real

definition schedule :: "bool \<Rightarrow> real \<Rightarrow> real \<Rightarrow> real \<Rightarrow> job list \<Rightarrow> nat list \<times> job list" where
  "schedule useSmart solarAvailable temp hour js =
     (if useSmart then SmartScheduler_schedule solarAvailable temp hour js
      else BaselineScheduler_schedule solarAvailable temp hour js)"

definition dtHours :: real where "dtHours = TIME_STEP_MINUTES / 60"

text \<open>Step B of the loop body: every running job advances; the finished ones leave the set.\<close>

definition run_existing :: "real \<Rightarrow> job list \<Rightarrow> nat list \<Rightarrow> job list" where
  "run_existing hour js running =
     foldl (\<lambda>s i. s[i := runStep TIME_STEP_MINUTES hour (s ! i)]) js running"

text \<open>Step C: the scheduler's new jobs join the set.\<close>

definition add_new :: "job list \<Rightarrow> nat list \<Rightarrow> nat list \<Rightarrow> nat list" where
  "add_new js running newJobs =
     foldl (\<lambda>r j. if j \<notin> set r \<and> status (js ! j) \<noteq> DONE then r @ [j] else r) running newJobs"

text \<open>The loop body, steps A to F, without the final increment of \<open>currentHour\<close>.\<close>

definition sim_body :: "bool \<Rightarrow> (real \<Rightarrow> real option) \<Rightarrow> (real \<Rightarrow> real option) \<Rightarrow> simulationConfig
    \<Rightarrow> sim \<Rightarrow> sim" where
  "sim_body useSmart getSolar getTemp config st =
     (let hour = currentHour st;
          solarAvailable = (case getSolar hour of
                              Some v \<Rightarrow> v
                            | None \<Rightarrow> getSolarPower hour (maxSolarKw config) (latitude config)
                                        (dayOfYear config));
          ambientTemp = (case getTemp hour of
                           Some v \<Rightarrow> v
                         | None \<Rightarrow> getAmbientTemp hour (minTemp config) (maxTemp config));
          jobs1 = run_existing hour (scheduler_jobs st) (currentlyRunning st);
          running1 = filter (\<lambda>i. status (jobs1 ! i) \<noteq> DONE) (currentlyRunning st);
          sched = schedule useSmart solarAvailable (currentTemp st) hour jobs1;
          newJobs = fst sched;
          jobs2 = snd sched;
          running2 = add_new jobs2 running1 newJobs;
          computeLoad = (\<Sum>i\<leftarrow>running2. powerKw (jobs2 ! i));
          solarUsed = min computeLoad solarAvailable;
          gridUsed = max 0 (computeLoad - solarUsed);
          coolingNeeded = getCoolingPowerKw (currentTemp st) computeLoad;
          tempChange = HEAT_ACCUMULATION * computeLoad
                       - COOLING_EFFICIENCY * coolingNeeded
                       - THERMAL_DISSIPATION * (currentTemp st - ambientTemp);
          currentTemp' = currentTemp st + tempChange;
          currentGridUse = gridUsed + coolingNeeded;
          price = getGridPrice hour;
          stepCost = currentGridUse * dtHours * price;
          accumulatedCost' = accumulatedCost st + stepCost;
          lg = simLogs st;
          logs' = \<lparr> log_time = log_time lg @ [hour],
                    log_solar = log_solar lg @ [solarUsed],
                    log_grid = log_grid lg @ [currentGridUse],
                    log_temp = log_temp lg @ [currentTemp'],
                    log_cooling = log_cooling lg @ [coolingNeeded],
                    log_cost = log_cost lg @ [accumulatedCost'] \<rparr>;
          missed = filter (\<lambda>j. fst (deadlineMissed hour j)) jobs2;
          jobs3 = map (\<lambda>j. snd (deadlineMissed hour j)) jobs2
      in st\<lparr> scheduler_jobs := jobs3,
              currentlyRunning := running2,
              gridEnergy := gridEnergy st + currentGridUse * dtHours,
              solarEnergy := solarEnergy st + solarUsed * dtHours,
              coolingEnergy := coolingEnergy st + coolingNeeded * dtHours,
              carbon := carbon st + currentGridUse * dtHours * GRID_CARBON_INTENSITY,
              slaViolations := slaViolations st + length missed,
              accumulatedCost := accumulatedCost',
              simLogs := logs',
              currentTemp := currentTemp' \<rparr>)"

function sim_loop :: "bool \<Rightarrow> (real \<Rightarrow> real option) \<Rightarrow> (real \<Rightarrow> real option) \<Rightarrow> simulationConfig
    \<Rightarrow> sim \<Rightarrow> sim" where
  "sim_loop useSmart getSolar getTemp config st =
     (if currentHour st < SIMULATION_END_HOUR
      then sim_loop useSmart getSolar getTemp config
             ((sim_body useSmart getSolar getTemp config st)
                \<lparr> currentHour := currentHour st + dtHours \<rparr>)
      else st)"
  by pat_completeness auto
termination
proof (relation "measure (\<lambda>(useSmart, getSolar, getTemp, config, st).
                  nat \<lceil>(SIMULATION_END_HOUR - currentHour st) * 6\<rceil>)")
  show "wf (measure (\<lambda>(useSmart, getSolar, getTemp, config, st).
                  nat \<lceil>(SIMULATION_END_HOUR - currentHour st) * 6\<rceil>))"
    by simp
next
  fix useSmart :: bool and getSolar getTemp :: "real \<Rightarrow> real option"
    and config :: simulationConfig and st :: sim
  assume less: "currentHour st < SIMULATION_END_HOUR"
  have step: "(SIMULATION_END_HOUR - (currentHour st + dtHours)) * 6
              = (SIMULATION_END_HOUR - currentHour st) * 6 - 1"
    by (simp add: dtHours_def TIME_STEP_MINUTES_def algebra_simps)
  have "0 < (SIMULATION_END_HOUR - currentHour st) * 6"
    using less by simp
  then have pos: "0 < \<lceil>(SIMULATION_END_HOUR - currentHour st) * 6\<rceil>"
    by simp
  have "\<lceil>(SIMULATION_END_HOUR - currentHour st) * 6 - 1\<rceil>
        = \<lceil>(SIMULATION_END_HOUR - currentHour st) * 6\<rceil> - 1"
    by (rule ceiling_diff_one)
  with pos have "nat \<lceil>(SIMULATION_END_HOUR - (currentHour st + dtHours)) * 6\<rceil>
                 < nat \<lceil>(SIMULATION_END_HOUR - currentHour st) * 6\<rceil>"
    unfolding step by linarith
  then show "((useSmart, getSolar, getTemp, config,
               (sim_body useSmart getSolar getTemp config st)
                 \<lparr> currentHour := currentHour st + dtHours \<rparr>),
              (useSmart, getSolar, getTemp, config, st))
             \<in> measure (\<lambda>(useSmart, getSolar, getTemp, config, st).
                  nat \<lceil>(SIMULATION_END_HOUR - currentHour st) * 6\<rceil>)"
    by simp
qed

declare sim_loop.simps [simp del]

text \<open>
  A number of the language that a division may produce: the quotient by zero is no
  real. (The sign of a zero divisor is not modelled.)
\<close>

datatype jsnum = Num real | PosInfinity | NegInfinity | NaN

definition js_div :: "real \<Rightarrow> real \<Rightarrow> jsnum" where
  "js_div a b =
     (if b \<noteq> 0 then Num (a / b)
      else if a = 0 then NaN
      else if 0 < a then PosInfinity else NegInfinity)"

definition js_times :: "jsnum \<Rightarrow> real \<Rightarrow> jsnum" where
  "js_times x c =
     (case x of
        Num r \<Rightarrow> Num (r * c)
      | PosInfinity \<Rightarrow> (if 0 < c then PosInfinity else if c < 0 then NegInfinity else NaN)
      | NegInfinity \<Rightarrow> (if 0 < c then NegInfinity else if c < 0 then PosInfinity else NaN)
      | NaN \<Rightarrow> NaN)"

record timeline_event =
  ev_name :: string
  ev_start :: "real option"
  ev_duration :: real
  ev_priority :: priority
  ev_status :: status

record schedulerMetrics =
  energy_solar :: real
  energy_grid :: real
  energy_cooling :: real
  energy_total :: real
  energy_solarPct :: jsnum
  cost_total :: real
  cost_grid :: real
  cost_penalty :: real
  metrics_carbon :: real
  sla_violations :: nat
  sla_penaltyKwh :: real
  timeline :: "timeline_event list"
  metrics_logs :: logs

definition initial_sim :: "appliance list \<Rightarrow> sim" where
  "initial_sim appliances =
     \<lparr> scheduler_jobs = map job_of_appliance appliances,
       currentlyRunning = [],
       gridEnergy = 0, solarEnergy = 0, coolingEnergy = 0, carbon = 0,
       slaViolations = 0, accumulatedCost = 0,
       simLogs = \<lparr> log_time = [], log_solar = [], log_grid = [], log_temp = [],
                   log_cooling = [], log_cost = [] \<rparr>,
       currentTemp = IDEAL_TEMP,
       currentHour = SIMULATION_START_HOUR \<rparr>"

text \<open>The state when the \<open>while\<close> loop has ended.\<close>

definition final_sim :: "appliance list \<Rightarrow> files \<Rightarrow> simulationConfig \<Rightarrow> bool \<Rightarrow> sim" where
  "final_sim appliances fs config useSmart =
     sim_loop useSmart (createLookup (solar fs)) (createLookup (weather fs)) config
       (initial_sim appliances)"

definition runSmartSimulation :: "appliance list \<Rightarrow> files \<Rightarrow> simulationConfig \<Rightarrow> bool
    \<Rightarrow> schedulerMetrics" where
  "runSmartSimulation appliances fs config useSmart =
     (let st = final_sim appliances fs config useSmart
      in \<lparr> energy_solar = solarEnergy st,
           energy_grid = gridEnergy st - coolingEnergy st,
           energy_cooling = coolingEnergy st,
           energy_total = solarEnergy st + gridEnergy st,
           energy_solarPct = js_times (js_div (solarEnergy st) (solarEnergy st + gridEnergy st)) 100,
           cost_total = accumulatedCost st,
           cost_grid = accumulatedCost st,
           cost_penalty = 0,
           metrics_carbon = carbon st,
           sla_violations = slaViolations st,
           sla_penaltyKwh = real (slaViolations st) * DEADLINE_PENALTY_KWH,
           timeline = map (\<lambda>j. \<lparr> ev_name = name j, ev_start = startHour j,
                                    ev_duration = duration j / 60, ev_priority = priority j,
                                    ev_status = status j \<rparr>) (scheduler_jobs st),
           metrics_logs = simLogs st \<rparr>)"

text \<open>
  The state after at most \<open>n\<close> iterations of the same loop (fewer when the loop has
  ended before): the states that a run goes through.
\<close>

fun sim_steps :: "nat \<Rightarrow> bool \<Rightarrow> (real \<Rightarrow> real option) \<Rightarrow> (real \<Rightarrow> real option) \<Rightarrow> simulationConfig
    \<Rightarrow> sim \<Rightarrow> sim" where
  "sim_steps 0 useSmart getSolar getTemp config st = st"
| "sim_steps (Suc n) useSmart getSolar getTemp config st =
     (if currentHour st < SIMULATION_END_HOUR
      then sim_steps n useSmart getSolar getTemp config
             ((sim_body useSmart getSolar getTemp config st)
                \<lparr> currentHour := currentHour st + dtHours \<rparr>)
      else st)"

section \<open>Invariants and example data of the proofs\<close>

definition jobA :: job where
  "jobA = new_Job ''pump'' 2 120 ''High'' (Some 1) True"



text \<open>
  The order that is claimed for the sorted candidates: \<open>a\<close> may stand before \<open>b\<close>.
\<close>

definition claimed_before :: "real \<Rightarrow> job \<Rightarrow> job \<Rightarrow> bool" where
  "claimed_before hour a b =
     (if pMap (priority a) \<noteq> pMap (priority b) then pMap (priority a) < pMap (priority b)
      else if \<bar>urgencyScore hour a - urgencyScore hour b\<bar> > 1 / 10
           then urgencyScore hour a > urgencyScore hour b
           else powerKw a \<le> powerKw b)"

text \<open>
  Among jobs of one class, being within the tolerance is transitive: two urgency
  scores that are within 0.1 of a third are within 0.1 of each other.
\<close>

definition tolerance_transitive :: "real \<Rightarrow> job list \<Rightarrow> bool" where
  "tolerance_transitive hour js =
     (\<forall>a\<in>set js. \<forall>b\<in>set js. \<forall>c\<in>set js.
        priority a = priority b \<and> priority b = priority c
        \<and> \<bar>urgencyScore hour a - urgencyScore hour b\<bar> \<le> 1 / 10
        \<and> \<bar>urgencyScore hour b - urgencyScore hour c\<bar> \<le> 1 / 10
        \<longrightarrow> \<bar>urgencyScore hour a - urgencyScore hour c\<bar> \<le> 1 / 10)"

text \<open>
  The candidates are within the scale of the simulation at \<open>hour\<close>: the power is a
  binary64 value, and a deadline that is not reached yet is at least a thousandth of an
  hour away, with at most a million minutes remaining. And the urgency scores of two
  candidates of one class are not at the tolerance: their difference is away from 0.1
  by at least a millionth.
\<close>

definition well_scaled :: "real \<Rightarrow> job \<Rightarrow> bool" where
  "well_scaled hour j =
     (fl (powerKw j) = powerKw j
      \<and> (case deadline j of
           None \<Rightarrow> True
         | Some d \<Rightarrow> d - hour \<le> 0 \<or> (1 / 1000 \<le> d - hour \<and> \<bar>remaining j\<bar> \<le> 1000000)))"

definition clear_of_tolerance :: "real \<Rightarrow> job list \<Rightarrow> bool" where
  "clear_of_tolerance hour js =
     (\<forall>a\<in>set js. \<forall>b\<in>set js.
        priority a = priority b
        \<longrightarrow> \<bar>urgencyScore hour a - urgencyScore hour b\<bar> \<le> 1 / 10 - 1 / 1000000
            \<or> 1 / 10 + 1 / 1000000 \<le> \<bar>urgencyScore hour a - urgencyScore hour b\<bar>)"

text \<open>Three waiting jobs of class high, built as the simulation builds them (deadline 18).\<close>

definition jobs_cycle :: "job list" where
  "jobs_cycle = [ new_Job ''a'' 1 60 ''high'' (Some 18) True,
                  new_Job ''b'' 2 150 ''high'' (Some 18) True,
                  new_Job ''c'' 3 240 ''high'' (Some 18) True ]"

text \<open>
  Five waiting jobs of three classes; of the three high jobs, two have the same urgency
  score and the third a score that is lower by more than the tolerance.
\<close>

definition jobs_mixed :: "job list" where
  "jobs_mixed = [ new_Job ''ev'' 7 210 ''low'' (Some 18) True,
                  new_Job ''ac'' 3 240 ''high'' (Some 18) True,
                  new_Job ''fan'' 1 240 ''high'' (Some 18) True,
                  new_Job ''light'' 5 360 ''critical'' (Some 18) False,
                  new_Job ''lamp'' 2 60 ''high'' (Some 18) True ]"

text \<open>
  Two waiting jobs of class high with 54 and 162 minutes remaining: at hour 0, with the
  deadline 18, their urgency scores over the reals are \<open>0.05\<close> and \<open>0.15\<close>.
\<close>

definition jobs_tolerance :: "job list" where
  "jobs_tolerance = [ new_Job ''x'' 1 54 ''high'' (Some 18) True,
                      new_Job ''y'' 3 162 ''high'' (Some 18) True ]"

text \<open>
  The accumulator \<open>totalPower\<close> of \<open>BaselineScheduler.schedule\<close> after it has admitted the
  jobs behind \<open>refs\<close>, in this order.
\<close>

definition baseline_total :: "job list \<Rightarrow> nat list \<Rightarrow> real" where
  "baseline_total js refs =
     foldl fadd BASELINE_BACKGROUND_LOAD (map (\<lambda>i. powerKw (js ! i)) refs)"

text \<open>
  A running job of 9 kW in front of three waiting jobs of 4, 5 and 1 kW; and three
  waiting jobs whose powers are the literals \<open>0.2\<close>, \<open>4.9\<close> and \<open>1.9\<close>.
\<close>

definition jobs_fifo :: "job list" where
  "jobs_fifo = [ (new_Job ''old'' 9 60 ''high'' (Some 18) True)\<lparr> status := RUNNING \<rparr>,
                 new_Job ''ac'' 4 240 ''low'' (Some 18) True,
                 new_Job ''ev'' 5 210 ''low'' (Some 18) True,
                 new_Job ''light'' 1 360 ''critical'' (Some 18) False ]"

definition jobs_decimal :: "job list" where
  "jobs_decimal = [ new_Job ''fan'' (fl (2 / 10)) 60 ''low'' (Some 18) True,
                    new_Job ''oven'' (fl (49 / 10)) 60 ''low'' (Some 18) True,
                    new_Job ''pump'' (fl (19 / 10)) 60 ''low'' (Some 18) True ]"

text \<open>Job specifications: one with a deadline of 6 and a zero duration, one with neither.\<close>

definition app_pump :: appliance where
  "app_pump = \<lparr> app_name = ''pump'', app_power = 2, app_duration = Some 0,
                 app_priority = ''Medium'', app_deadlineHour = Some 6, app_flexible = None \<rparr>"

definition app_fan :: appliance where
  "app_fan = \<lparr> app_name = ''fan'', app_power = 1, app_duration = Some 3,
                app_priority = ''Medium'', app_deadlineHour = None, app_flexible = Some True \<rparr>"

text \<open>
  The loop of \<open>SmartScheduler.schedule\<close> has neither changed nor admitted the job
  behind reference \<open>i\<close>.
\<close>

definition untouched :: "job list \<Rightarrow> nat \<Rightarrow> job list \<times> nat list \<times> real \<Rightarrow> bool" where
  "untouched js i st = (fst st ! i = js ! i \<and> i \<notin> set (fst (snd st)))"

text \<open>
  The hour of the \<open>n\<close>-th iteration of the simulation loop, and the values of
  \<open>solarAvailable\<close> and \<open>ambientTemp\<close> that an iteration at \<open>hour\<close> computes.
\<close>

definition step_hour :: "nat \<Rightarrow> real" where
  "step_hour n = SIMULATION_START_HOUR + real n * dtHours"

definition solar_at :: "(real \<Rightarrow> real option) \<Rightarrow> simulationConfig \<Rightarrow> real \<Rightarrow> real" where
  "solar_at getSolar config hour =
     (case getSolar hour of
        Some v \<Rightarrow> v
      | None \<Rightarrow> getSolarPower hour (maxSolarKw config) (latitude config) (dayOfYear config))"

definition temp_at :: "(real \<Rightarrow> real option) \<Rightarrow> simulationConfig \<Rightarrow> real \<Rightarrow> real" where
  "temp_at getTemp config hour =
     (case getTemp hour of
        Some v \<Rightarrow> v
      | None \<Rightarrow> getAmbientTemp hour (minTemp config) (maxTemp config))"

text \<open>
  Loop invariants: the job behind reference \<open>i\<close> is a medium, flexible job that has
  never been started; and the simulation of an empty job list has used no energy.
\<close>

definition waits :: "nat \<Rightarrow> sim \<Rightarrow> bool" where
  "waits i st =
     (i < length (scheduler_jobs st)
      \<and> status (scheduler_jobs st ! i) = WAITING
      \<and> startHour (scheduler_jobs st ! i) = None
      \<and> priority (scheduler_jobs st ! i) = Medium
      \<and> flexible (scheduler_jobs st ! i)
      \<and> i \<notin> set (currentlyRunning st)
      \<and> (\<exists>n. currentHour st = step_hour n))"

definition idle :: "sim \<Rightarrow> bool" where
  "idle st =
     (scheduler_jobs st = [] \<and> currentlyRunning st = []
      \<and> solarEnergy st = 0 \<and> gridEnergy st = 0 \<and> coolingEnergy st = 0
      \<and> currentTemp st \<le> TEMP_THRESHOLD
      \<and> (\<exists>n. currentHour st = step_hour n))"

text \<open>Uploaded series of 24 points without timestamps: no solar output, and 20 degrees.\<close>

definition dark_day :: "point list" where
  "dark_day = replicate 24 \<lparr> timestamp = None, pvalue = 0 \<rparr>"

definition cool_day :: "point list" where
  "cool_day = replicate 24 \<lparr> timestamp = None, pvalue = 20 \<rparr>"

definition no_config :: simulationConfig where
  "no_config = \<lparr> maxSolarKw = None, minTemp = None, maxTemp = None,
                  latitude = None, dayOfYear = None \<rparr>"

section \<open>Properties of the rounding\<close>

subsection \<open>Rounding to the nearest integer, exponent and spacing\<close>

lemma rhe_int [simp]: "rhe (of_int n) = n"
  by (simp add: rhe_def)

lemma rhe_cases: "rhe x = \<lfloor>x\<rfloor> \<or> rhe x = \<lfloor>x\<rfloor> + 1"
  by (simp add: rhe_def Let_def)

lemma rhe_floor_le: "\<lfloor>x\<rfloor> \<le> rhe x"
  using rhe_cases [of x] by linarith

lemma rhe_le_floor: "rhe x \<le> \<lfloor>x\<rfloor> + 1"
  using rhe_cases [of x] by linarith

lemma rhe_mono: "x \<le> y \<Longrightarrow> rhe x \<le> rhe y"
proof -
  assume xy: "x \<le> y"
  then have f: "\<lfloor>x\<rfloor> \<le> \<lfloor>y\<rfloor>" by (rule floor_mono)
  show ?thesis
  proof (cases "\<lfloor>x\<rfloor> = \<lfloor>y\<rfloor>")
    case True
    with xy show ?thesis by (auto simp: rhe_def Let_def)
  next
    case False
    with f have "\<lfloor>x\<rfloor> + 1 \<le> \<lfloor>y\<rfloor>" by linarith
    with rhe_le_floor [of x] rhe_floor_le [of y] show ?thesis by linarith
  qed
qed

lemma rhe_ge: "of_int n \<le> x \<Longrightarrow> n \<le> rhe x"
  using rhe_mono [of "of_int n" x] by simp

lemma rhe_le: "x \<le> of_int n \<Longrightarrow> rhe x \<le> n"
  using rhe_mono [of x "of_int n"] by simp

lemma ulp_pos: "0 < ulp x"
  by (simp add: ulp_def)

lemma fl_0 [simp]: "fl 0 = 0"
  by (simp add: fl_def)

lemma fl_nonneg: "0 \<le> x \<Longrightarrow> 0 \<le> fl x"
proof -
  assume "0 \<le> x"
  then have "0 \<le> x / ulp x" using ulp_pos [of x] by (simp add: divide_nonneg_pos)
  then have "of_int 0 \<le> x / ulp x" by simp
  then have "0 \<le> rhe (x / ulp x)" by (rule rhe_ge)
  then have "0 \<le> of_int (rhe (x / ulp x)) * ulp x"
    using ulp_pos [of x] by (simp add: less_imp_le)
  then show ?thesis by (simp add: fl_def)
qed

lemma fl_nonpos: "x \<le> 0 \<Longrightarrow> fl x \<le> 0"
proof -
  assume "x \<le> 0"
  then have "x / ulp x \<le> 0" using ulp_pos [of x] by (simp add: divide_nonpos_pos)
  then have "x / ulp x \<le> of_int 0" by simp
  then have "rhe (x / ulp x) \<le> 0" by (rule rhe_le)
  then have "of_int (rhe (x / ulp x)) * ulp x \<le> 0"
    using ulp_pos [of x] by (simp add: mult_nonpos_nonneg less_imp_le)
  then show ?thesis by (simp add: fl_def)
qed

lemma expo_ge: "- 1022 \<le> expo x"
  by (simp add: expo_def)

lemma expo_upper: "x \<noteq> 0 \<Longrightarrow> \<bar>x\<bar> < 2 powr of_int (expo x + 1)"
proof -
  assume "x \<noteq> 0"
  then have pos: "0 < \<bar>x\<bar>" by simp
  have "log 2 \<bar>x\<bar> < of_int (\<lfloor>log 2 \<bar>x\<bar>\<rfloor> + 1)" by linarith
  also have "\<dots> \<le> of_int (expo x + 1)" by (simp add: expo_def)
  finally have "log 2 \<bar>x\<bar> < of_int (expo x + 1)" .
  then show ?thesis using pos by (simp add: log_less_iff)
qed

lemma expo_lower: "x \<noteq> 0 \<Longrightarrow> - 1022 < expo x \<Longrightarrow> 2 powr of_int (expo x) \<le> \<bar>x\<bar>"
proof -
  assume "x \<noteq> 0" and e: "- 1022 < expo x"
  then have pos: "0 < \<bar>x\<bar>" by simp
  from e have "expo x = \<lfloor>log 2 \<bar>x\<bar>\<rfloor>" by (simp add: expo_def max_def split: if_splits)
  then have "of_int (expo x) \<le> log 2 \<bar>x\<bar>" by simp
  then show ?thesis using pos by (simp add: le_log_iff)
qed

lemma expo_eq:
  assumes "- 1022 \<le> e" and "2 powr of_int e \<le> \<bar>x\<bar>" and "\<bar>x\<bar> < 2 powr of_int (e + 1)"
  shows "expo x = e"
proof -
  have pos: "0 < \<bar>x\<bar>" using assms(2) powr_gt_zero [of 2 "of_int e"] by linarith
  have "\<lfloor>log 2 \<bar>x\<bar>\<rfloor> = e"
    using assms(2,3) pos by (simp add: floor_log_eq_powr_iff)
  with assms(1) show ?thesis by (simp add: expo_def)
qed

lemma expo_subnormal:
  assumes "x \<noteq> 0" and "\<bar>x\<bar> < 2 powr (- 1022)"
  shows "expo x = - 1022"
proof -
  have pos: "0 < \<bar>x\<bar>" using assms(1) by simp
  have "log 2 \<bar>x\<bar> < - 1022" using assms(2) pos by (simp add: log_less_iff)
  then have "\<lfloor>log 2 \<bar>x\<bar>\<rfloor> < - 1022" by linarith
  then show ?thesis by (simp add: expo_def)
qed

lemma expo_mono: "x \<noteq> 0 \<Longrightarrow> \<bar>x\<bar> \<le> \<bar>y\<bar> \<Longrightarrow> expo x \<le> expo y"
proof -
  assume "x \<noteq> 0" and le: "\<bar>x\<bar> \<le> \<bar>y\<bar>"
  then have "0 < \<bar>x\<bar>" by simp
  with le have "log 2 \<bar>x\<bar> \<le> log 2 \<bar>y\<bar>" by simp
  then have "\<lfloor>log 2 \<bar>x\<bar>\<rfloor> \<le> \<lfloor>log 2 \<bar>y\<bar>\<rfloor>" by (rule floor_mono)
  then show ?thesis by (simp add: expo_def)
qed

text \<open>Evaluation of the rounding at a known exponent.\<close>

lemma fl_at:
  assumes "- 1022 \<le> e" and "2 powr of_int e \<le> \<bar>x\<bar>" and "\<bar>x\<bar> < 2 powr of_int (e + 1)"
  shows "fl x = of_int (rhe (x / 2 powr of_int (e - 52))) * 2 powr of_int (e - 52)"
proof -
  have "x \<noteq> 0" using assms(2) powr_gt_zero [of 2 "of_int e"] by auto
  moreover have "expo x = e" using assms by (rule expo_eq)
  ultimately show ?thesis by (simp add: fl_def ulp_def)
qed

lemma fl_exact: "x / ulp x = of_int k \<Longrightarrow> fl x = x"
proof -
  assume eq: "x / ulp x = of_int k"
  have "ulp x \<noteq> 0" by (simp add: ulp_def)
  with eq have "of_int k * ulp x = x" by (simp add: field_simps)
  with eq show ?thesis by (simp add: fl_def)
qed

subsection \<open>Symmetry, monotonicity and idempotence of the rounding\<close>

lemma floor_uminus_nonint: "x \<noteq> of_int \<lfloor>x\<rfloor> \<Longrightarrow> \<lfloor>- x\<rfloor> = - \<lfloor>x\<rfloor> - 1"
proof -
  assume "x \<noteq> of_int \<lfloor>x\<rfloor>"
  then have "\<lceil>x\<rceil> = \<lfloor>x\<rfloor> + 1" by (simp add: ceiling_altdef)
  then show ?thesis by (simp add: ceiling_def)
qed

lemma rhe_minus: "rhe (- x) = - rhe x"
proof (cases "x = of_int \<lfloor>x\<rfloor>")
  case True
  then obtain n where "x = of_int n" ..
  then have "- x = of_int (- n)" by simp
  then have "rhe (- x) = - n" by (simp only: rhe_int)
  with \<open>x = of_int n\<close> show ?thesis by simp
next
  case False
  then have f: "\<lfloor>- x\<rfloor> = - \<lfloor>x\<rfloor> - 1" by (rule floor_uminus_nonint)
  have ev: "even (- \<lfloor>x\<rfloor> - 1) = odd \<lfloor>x\<rfloor>" by simp
  show ?thesis
    unfolding rhe_def Let_def f ev
    by (auto simp: algebra_simps)
qed

lemma expo_minus [simp]: "expo (- x) = expo x"
  by (simp add: expo_def)

lemma ulp_minus [simp]: "ulp (- x) = ulp x"
  by (simp add: ulp_def)

lemma fl_minus: "fl (- x) = - fl x"
  by (simp add: fl_def rhe_minus)

lemma two_powr_53: "(2::real) powr 53 = of_int (2 ^ 53)"
  by simp

lemma two_powr_52: "(2::real) powr 52 = of_int (2 ^ 52)"
  by simp

lemma ulp_times: "of_int (2 ^ 52) * ulp x = 2 powr of_int (expo x)"
proof -
  have "of_int (2 ^ 52) * ulp x = 2 powr 52 * 2 powr of_int (expo x - 52)"
    by (simp add: ulp_def)
  also have "\<dots> = 2 powr (52 + of_int (expo x - 52))" by (simp only: powr_add)
  finally show ?thesis by simp
qed

lemma ulp_times': "of_int (2 ^ 53) * ulp x = 2 powr of_int (expo x + 1)"
proof -
  have "of_int (2 ^ 53) * ulp x = 2 powr 53 * 2 powr of_int (expo x - 52)"
    by (simp add: ulp_def)
  also have "\<dots> = 2 powr (53 + of_int (expo x - 52))" by (simp only: powr_add)
  finally show ?thesis by (simp add: add.commute)
qed

lemma fl_upper:
  assumes "0 < x"
  shows "fl x \<le> 2 powr of_int (expo x + 1)"
proof -
  have "x < 2 powr of_int (expo x + 1)" using expo_upper [of x] assms by simp
  then have "x < of_int (2 ^ 53) * ulp x" by (simp only: ulp_times')
  then have "x / ulp x \<le> of_int (2 ^ 53)"
    using ulp_pos [of x] by (simp add: field_simps)
  then have "rhe (x / ulp x) \<le> 2 ^ 53" by (rule rhe_le)
  then have "of_int (rhe (x / ulp x)) \<le> (of_int (2 ^ 53) :: real)" by (simp only: of_int_le_iff)
  then have "of_int (rhe (x / ulp x)) * ulp x \<le> of_int (2 ^ 53) * ulp x"
    using ulp_pos [of x] by (simp only: mult_le_cancel_right_pos)
  then show ?thesis using assms by (simp only: ulp_times' fl_def) simp
qed

lemma fl_lower:
  assumes "0 < x" and "- 1022 < expo x"
  shows "2 powr of_int (expo x) \<le> fl x"
proof -
  have "2 powr of_int (expo x) \<le> x" using expo_lower [of x] assms by simp
  then have "of_int (2 ^ 52) * ulp x \<le> x" by (simp only: ulp_times)
  then have "of_int (2 ^ 52) \<le> x / ulp x"
    using ulp_pos [of x] by (simp add: field_simps)
  then have "2 ^ 52 \<le> rhe (x / ulp x)" by (rule rhe_ge)
  then have "(of_int (2 ^ 52) :: real) \<le> of_int (rhe (x / ulp x))" by (simp only: of_int_le_iff)
  then have "of_int (2 ^ 52) * ulp x \<le> of_int (rhe (x / ulp x)) * ulp x"
    using ulp_pos [of x] by (simp only: mult_le_cancel_right_pos)
  then show ?thesis using assms by (simp only: ulp_times fl_def) simp
qed

lemma fl_mono_pos:
  assumes "0 < x" and "x \<le> y"
  shows "fl x \<le> fl y"
proof -
  have y: "0 < y" using assms by linarith
  have "expo x \<le> expo y" using assms by (intro expo_mono) simp_all
  then consider "expo x = expo y" | "expo x < expo y" by linarith
  then show ?thesis
  proof cases
    case 1
    then have u: "ulp x = ulp y" by (simp add: ulp_def)
    have "x / ulp y \<le> y / ulp y"
      using assms(2) ulp_pos [of y] by (simp add: divide_right_mono less_imp_le)
    then have "rhe (x / ulp y) \<le> rhe (y / ulp y)" by (rule rhe_mono)
    then have "(of_int (rhe (x / ulp y)) :: real) \<le> of_int (rhe (y / ulp y))"
      by (simp only: of_int_le_iff)
    then have "of_int (rhe (x / ulp y)) * ulp y \<le> of_int (rhe (y / ulp y)) * ulp y"
      using ulp_pos [of y] by (simp only: mult_le_cancel_right_pos)
    then show ?thesis using assms(1) y by (simp add: fl_def u)
  next
    case 2
    then have e: "- 1022 < expo y" using expo_ge [of x] by linarith
    have "fl x \<le> 2 powr of_int (expo x + 1)" using assms(1) by (rule fl_upper)
    also have "\<dots> \<le> 2 powr of_int (expo y)" using 2 by simp
    also have "\<dots> \<le> fl y" using y e by (rule fl_lower)
    finally show ?thesis .
  qed
qed

lemma fl_mono: "x \<le> y \<Longrightarrow> fl x \<le> fl y"
proof -
  assume xy: "x \<le> y"
  consider "0 < x" | "x \<le> 0" "0 \<le> y" | "y < 0" by linarith
  then show ?thesis
  proof cases
    case 1
    then show ?thesis using xy by (rule fl_mono_pos)
  next
    case 2
    then show ?thesis using fl_nonpos [of x] fl_nonneg [of y] by linarith
  next
    case 3
    then have "0 < - y" and "- y \<le> - x" using xy by simp_all
    then have "fl (- y) \<le> fl (- x)" by (rule fl_mono_pos)
    then show ?thesis by (simp add: fl_minus)
  qed
qed

lemma fl_idem_pos:
  assumes "0 < x"
  shows "fl (fl x) = fl x"
proof -
  define k where "k = rhe (x / ulp x)"
  have v: "fl x = of_int k * ulp x" using assms by (simp add: fl_def k_def)
  have "0 \<le> fl x" using assms by (intro fl_nonneg) simp
  then have k0: "0 \<le> k" using ulp_pos [of x] by (simp add: v zero_le_mult_iff)
  have "fl x \<le> of_int (2 ^ 53) * ulp x" using fl_upper [OF assms] by (simp only: ulp_times')
  then have "(of_int k :: real) \<le> of_int (2 ^ 53)"
    using ulp_pos [of x] by (simp only: v mult_le_cancel_right_pos)
  then have k53: "k \<le> 2 ^ 53" by (simp only: of_int_le_iff)
  consider "k = 0" | "k = 2 ^ 53" | "2 ^ 52 \<le> k" "k < 2 ^ 53" | "0 < k" "k < 2 ^ 52"
    using k0 k53 by linarith
  then show ?thesis
  proof cases
    case 1
    then show ?thesis by (simp add: v)
  next
    case 2
    then have val: "fl x = 2 powr of_int (expo x + 1)" by (simp only: v ulp_times')
    have "expo (fl x) = expo x + 1"
    proof (rule expo_eq)
      show "- 1022 \<le> expo x + 1" using expo_ge [of x] by linarith
      show "2 powr of_int (expo x + 1) \<le> \<bar>fl x\<bar>" by (simp add: val)
      show "\<bar>fl x\<bar> < 2 powr of_int (expo x + 1 + 1)" by (simp add: val)
    qed
    then have "ulp (fl x) = 2 powr of_int (expo x + 1 - 52)" by (simp add: ulp_def)
    then have "fl x / ulp (fl x) = 2 powr (of_int (expo x + 1) - of_int (expo x + 1 - 52))"
      by (simp only: val powr_diff)
    also have "\<dots> = of_int (2 ^ 52)" by simp
    finally show ?thesis by (rule fl_exact)
  next
    case 3
    have lo: "2 powr of_int (expo x) \<le> fl x"
    proof -
      have "(of_int (2 ^ 52) :: real) \<le> of_int k" using 3(1) by (simp only: of_int_le_iff)
      then have "of_int (2 ^ 52) * ulp x \<le> of_int k * ulp x"
        using ulp_pos [of x] by (simp only: mult_le_cancel_right_pos)
      then show ?thesis by (simp only: v ulp_times)
    qed
    have hi: "fl x < 2 powr of_int (expo x + 1)"
    proof -
      have "(of_int k :: real) < of_int (2 ^ 53)" using 3(2) by (simp only: of_int_less_iff)
      then have "of_int k * ulp x < of_int (2 ^ 53) * ulp x"
        using ulp_pos [of x] by (simp only: mult_less_cancel_right_pos)
      then show ?thesis by (simp only: v ulp_times')
    qed
    have pos: "0 < fl x" using lo powr_gt_zero [of 2 "of_int (expo x)"] by linarith
    have "expo (fl x) = expo x"
      using expo_ge [of x] lo hi pos by (intro expo_eq) simp_all
    then have "ulp (fl x) = ulp x" by (simp add: ulp_def)
    then have "fl x / ulp (fl x) = of_int k"
      using ulp_pos [of x] by (simp add: v)
    then show ?thesis by (rule fl_exact)
  next
    case 4
    have sub: "expo x = - 1022"
    proof (rule ccontr)
      assume "expo x \<noteq> - 1022"
      then have "- 1022 < expo x" using expo_ge [of x] by linarith
      with assms have "2 powr of_int (expo x) \<le> fl x" by (rule fl_lower)
      then have "of_int (2 ^ 52) * ulp x \<le> of_int k * ulp x" by (simp only: v ulp_times)
      then have "(of_int (2 ^ 52) :: real) \<le> of_int k"
        using ulp_pos [of x] by (simp only: mult_le_cancel_right_pos)
      then have "2 ^ 52 \<le> k" by (simp only: of_int_le_iff)
      with 4(2) show False by linarith
    qed
    have pos: "0 < fl x" using 4(1) ulp_pos [of x] by (simp add: v)
    have "(of_int k :: real) < of_int (2 ^ 52)" using 4(2) by (simp only: of_int_less_iff)
    then have "of_int k * ulp x < of_int (2 ^ 52) * ulp x"
      using ulp_pos [of x] by (simp only: mult_less_cancel_right_pos)
    then have "fl x < 2 powr of_int (expo x)" by (simp only: v ulp_times)
    then have "\<bar>fl x\<bar> < 2 powr (- 1022)" using pos sub by simp
    moreover have "fl x \<noteq> 0" using pos by simp
    ultimately have "expo (fl x) = - 1022" by (intro expo_subnormal)
    then have "ulp (fl x) = ulp x" using sub by (simp add: ulp_def)
    then have "fl x / ulp (fl x) = of_int k"
      using ulp_pos [of x] by (simp add: v)
    then show ?thesis by (rule fl_exact)
  qed
qed

lemma fl_idem: "fl (fl x) = fl x"
proof -
  consider "0 < x" | "x = 0" | "x < 0" by linarith
  then show ?thesis
  proof cases
    case 1
    then show ?thesis by (rule fl_idem_pos)
  next
    case 2
    then show ?thesis by simp
  next
    case 3
    then have "fl (fl (- x)) = fl (- x)" by (intro fl_idem_pos) simp
    then show ?thesis by (simp add: fl_minus)
  qed
qed

lemma fl_int_pos:
  assumes "0 < n" and "n < 2 ^ 53"
  shows "fl (of_int n) = of_int n"
proof -
  have n1: "(1::real) \<le> of_int n" using assms(1) by simp
  then have "0 \<le> log 2 (of_int n)" by simp
  then have l0: "0 \<le> \<lfloor>log 2 (of_int n)\<rfloor>" by simp
  have "(of_int n :: real) < 2 powr 53" using assms(2) by (simp add: of_int_less_iff [symmetric] del: of_int_less_iff)
  then have "log 2 (of_int n) < 53" using n1 by (simp add: log_less_iff)
  then have l52: "\<lfloor>log 2 (of_int n)\<rfloor> \<le> 52" by linarith
  define e where "e = \<lfloor>log 2 (of_int n :: real)\<rfloor>"
  have e: "0 \<le> e" "e \<le> 52" using l0 l52 unfolding e_def by blast+
  have "\<bar>of_int n :: real\<bar> = of_int n" using n1 by simp
  then have "expo (of_int n) = max (- 1022) e" unfolding expo_def e_def by (simp only:)
  then have ex: "expo (of_int n) = e" using e(1) by simp
  have "ulp (of_int n) = 2 powr of_int (e - 52)" by (simp add: ulp_def ex)
  also have "\<dots> = 2 powr (- of_int (52 - e))" by simp
  also have "\<dots> = inverse (2 powr of_int (52 - e))" by (simp only: powr_minus)
  also have "2 powr (of_int (52 - e) :: real) = 2 ^ nat (52 - e)"
    using e by (subst powr_real_of_int) simp_all
  finally have u: "ulp (of_int n) = inverse (2 ^ nat (52 - e))" .
  have "of_int n / ulp (of_int n) = of_int (n * 2 ^ nat (52 - e))"
    by (simp add: u divide_inverse)
  then show ?thesis by (rule fl_exact)
qed

lemma fl_int: "\<bar>n\<bar> < 2 ^ 53 \<Longrightarrow> fl (of_int n) = of_int n"
proof -
  assume b: "\<bar>n\<bar> < 2 ^ 53"
  consider "0 < n" | "n = 0" | "n < 0" by linarith
  then show ?thesis
  proof cases
    case 1
    with b show ?thesis by (intro fl_int_pos) simp_all
  next
    case 2
    then show ?thesis by simp
  next
    case 3
    with b have "fl (of_int (- n)) = of_int (- n)" by (intro fl_int_pos) simp_all
    then show ?thesis by (simp add: fl_minus)
  qed
qed

subsection \<open>The rounding error, underflow and the sign of a difference\<close>

lemma rhe_error: "\<bar>of_int (rhe y) - y\<bar> \<le> 1 / 2"
proof -
  have "of_int \<lfloor>y\<rfloor> \<le> y" "y < of_int \<lfloor>y\<rfloor> + 1" by linarith+
  then show ?thesis by (auto simp: rhe_def Let_def)
qed

lemma rhe_small:
  assumes "0 \<le> y" and "y \<le> 1 / 2"
  shows "rhe y = 0"
proof -
  have f: "\<lfloor>y\<rfloor> = 0" using assms by (simp add: floor_eq_iff)
  show ?thesis unfolding rhe_def Let_def f using assms by simp
qed

lemma rhe_big:
  assumes "1 / 2 < y"
  shows "1 \<le> rhe y"
proof (cases "1 \<le> y")
  case True
  then show ?thesis using rhe_ge [of 1 y] by simp
next
  case False
  then have f: "\<lfloor>y\<rfloor> = 0" using assms by (simp add: floor_eq_iff)
  show ?thesis unfolding rhe_def Let_def f using assms by simp
qed

lemma fl_ulp_error: "\<bar>fl x - x\<bar> \<le> ulp x / 2"
proof (cases "x = 0")
  case True
  then show ?thesis using ulp_pos [of 0] by simp
next
  case False
  have u: "0 < ulp x" by (rule ulp_pos)
  have "fl x - x = (of_int (rhe (x / ulp x)) - x / ulp x) * ulp x"
    using False u by (simp add: fl_def field_simps)
  then have "\<bar>fl x - x\<bar> = \<bar>of_int (rhe (x / ulp x)) - x / ulp x\<bar> * ulp x"
    using u by (simp add: abs_mult)
  also have "\<dots> \<le> 1 / 2 * ulp x"
    using rhe_error [of "x / ulp x"] u by (intro mult_right_mono) simp_all
  finally show ?thesis by simp
qed

lemma ulp_normal: "x \<noteq> 0 \<Longrightarrow> - 1022 < expo x \<Longrightarrow> ulp x \<le> \<bar>x\<bar> / 2 ^ 52"
proof -
  assume "x \<noteq> 0" and "- 1022 < expo x"
  then have "2 powr of_int (expo x) \<le> \<bar>x\<bar>" by (rule expo_lower)
  then have "of_int (2 ^ 52) * ulp x \<le> \<bar>x\<bar>" by (simp only: ulp_times)
  then show ?thesis by (simp add: field_simps)
qed

lemma ulp_subnormal: "expo x = - 1022 \<Longrightarrow> ulp x = 2 powr (- 1074)"
  by (simp add: ulp_def)

lemma fl_error: "\<bar>fl x - x\<bar> \<le> \<bar>x\<bar> / 2 ^ 53 + 2 powr (- 1075)"
proof (cases "x = 0")
  case True
  then show ?thesis by simp
next
  case False
  show ?thesis
  proof (cases "- 1022 < expo x")
    case True
    with False have "ulp x \<le> \<bar>x\<bar> / 2 ^ 52" by (rule ulp_normal)
    then have "ulp x / 2 \<le> \<bar>x\<bar> / 2 ^ 53" by simp
    moreover have "0 \<le> (2::real) powr (- 1075)" by simp
    ultimately show ?thesis using fl_ulp_error [of x] by linarith
  next
    case False
    then have "expo x = - 1022" using expo_ge [of x] by linarith
    then have "ulp x = 2 powr (- 1074)" by (rule ulp_subnormal)
    then have "ulp x / 2 = 2 powr (- 1075)" by (simp add: powr_neg_numeral)
    moreover have "0 \<le> \<bar>x\<bar> / 2 ^ 53" by simp
    ultimately show ?thesis using fl_ulp_error [of x] by linarith
  qed
qed

lemma tiny_bound: "(2::real) powr (- 1075) \<le> 1 / 10 ^ 300"
  by (simp add: powr_neg_numeral)

lemma fl_error_dec: "\<bar>fl x - x\<bar> \<le> \<bar>x\<bar> / 10 ^ 15 + 1 / 10 ^ 300"
proof -
  have "\<bar>x\<bar> / 2 ^ 53 \<le> \<bar>x\<bar> / 10 ^ 15" by (intro divide_left_mono) simp_all
  with fl_error [of x] tiny_bound show ?thesis by linarith
qed

lemma fl_tiny:
  assumes "0 \<le> x" and "x \<le> 2 powr (- 1075)"
  shows "fl x = 0"
proof (cases "x = 0")
  case True
  then show ?thesis by simp
next
  case False
  have "(2::real) powr (- 1075) < 2 powr (- 1022)" by simp
  with assms have "\<bar>x\<bar> < 2 powr (- 1022)" by linarith
  with False have "expo x = - 1022" by (rule expo_subnormal)
  then have u: "ulp x = 2 powr (- 1074)" by (rule ulp_subnormal)
  have "(2::real) powr (- 1075) = 2 powr (- 1074) / 2" by (simp add: powr_neg_numeral)
  with assms(2) have "x / ulp x \<le> 1 / 2" by (simp add: u field_simps)
  moreover have "0 \<le> x / ulp x" using assms(1) by (simp add: u)
  ultimately have "rhe (x / ulp x) = 0" by (intro rhe_small)
  then show ?thesis by (simp add: fl_def)
qed

lemma fl_pos:
  assumes "2 powr (- 1075) < x"
  shows "0 < fl x"
proof -
  have x: "0 < x" using assms powr_gt_zero [of 2 "- 1075"] by linarith
  have "1 / 2 < x / ulp x"
  proof (cases "- 1022 < expo x")
    case True
    with x have "ulp x \<le> \<bar>x\<bar> / 2 ^ 52" by (intro ulp_normal) simp_all
    then have "2 ^ 52 * ulp x \<le> x" using x by (simp add: field_simps)
    then have "2 ^ 52 \<le> x / ulp x" using ulp_pos [of x] by (simp add: field_simps)
    moreover have "(1::real) / 2 < 2 ^ 52" by simp
    ultimately show ?thesis by linarith
  next
    case False
    then have "expo x = - 1022" using expo_ge [of x] by linarith
    then have u: "ulp x = 2 powr (- 1074)" by (rule ulp_subnormal)
    have "(2::real) powr (- 1075) = 2 powr (- 1074) / 2" by (simp add: powr_neg_numeral)
    with assms show ?thesis by (simp add: u field_simps)
  qed
  then have "1 \<le> rhe (x / ulp x)" by (rule rhe_big)
  then have "0 < of_int (rhe (x / ulp x)) * ulp x" using ulp_pos [of x] by simp
  then show ?thesis using x by (simp add: fl_def)
qed

lemma ulp_grid: "\<exists>m. ulp x = of_int m * 2 powr (- 1074)"
proof -
  have e: "0 \<le> expo x + 1022" using expo_ge [of x] by linarith
  have "ulp x = 2 powr (of_int (expo x + 1022) + (- 1074))" by (simp add: ulp_def)
  also have "\<dots> = 2 powr of_int (expo x + 1022) * 2 powr (- 1074)" by (simp only: powr_add)
  also have "2 powr (of_int (expo x + 1022) :: real) = 2 ^ nat (expo x + 1022)"
    using e by (subst powr_real_of_int) simp_all
  finally have "ulp x = of_int (2 ^ nat (expo x + 1022)) * 2 powr (- 1074)" by simp
  then show ?thesis ..
qed

lemma fl_grid: "\<exists>m. fl x = of_int m * 2 powr (- 1074)"
proof -
  obtain m where m: "ulp x = of_int m * 2 powr (- 1074)" using ulp_grid by blast
  show ?thesis
  proof (cases "x = 0")
    case True
    then have "fl x = of_int 0 * 2 powr (- 1074)" by simp
    then show ?thesis ..
  next
    case False
    then have "fl x = of_int (rhe (x / ulp x) * m) * 2 powr (- 1074)"
      by (simp add: fl_def m)
    then show ?thesis ..
  qed
qed

lemma fsub_sign:
  assumes "fl a = a" and "fl b = b"
  shows "(fl (a - b) \<le> 0) = (a \<le> b)"
proof
  assume "a \<le> b"
  then show "fl (a - b) \<le> 0" by (intro fl_nonpos) simp
next
  assume le: "fl (a - b) \<le> 0"
  show "a \<le> b"
  proof (rule ccontr)
    assume "\<not> a \<le> b"
    then have gt: "0 < a - b" by simp
    obtain m where m: "fl a = of_int m * 2 powr (- 1074)" using fl_grid by blast
    obtain n where n: "fl b = of_int n * 2 powr (- 1074)" using fl_grid by blast
    have d: "a - b = of_int (m - n) * 2 powr (- 1074)"
      using m n assms by (simp add: algebra_simps)
    with gt have "0 < (of_int (m - n) :: real)" by (simp add: zero_less_mult_iff)
    then have "1 \<le> m - n" by simp
    then have "(1::real) \<le> of_int (m - n)" by (simp only: of_int_1_le_iff)
    then have "1 * 2 powr (- 1074) \<le> of_int (m - n) * (2::real) powr (- 1074)"
      by (intro mult_right_mono) simp_all
    then have "(2::real) powr (- 1074) \<le> a - b" by (simp add: d)
    moreover have "(2::real) powr (- 1075) < 2 powr (- 1074)" by simp
    ultimately have "2 powr (- 1075) < a - b" by linarith
    then have "0 < fl (a - b)" by (rule fl_pos)
    with le show False by linarith
  qed
qed

subsection \<open>Whole numbers and literals\<close>

lemma wholeI: "x = of_int n \<Longrightarrow> whole x"
  by (simp add: whole_def)

lemma wholeE: "whole x \<Longrightarrow> \<exists>n. x = of_int n"
proof -
  assume "whole x"
  then have "x = of_int \<lfloor>x\<rfloor>" unfolding whole_def by (rule sym)
  then show ?thesis ..
qed

lemma whole_add: "whole x \<Longrightarrow> whole y \<Longrightarrow> whole (x + y)"
proof -
  assume "whole x" and "whole y"
  then obtain n m where "x = of_int n" "y = of_int m" using wholeE by blast
  then have "x + y = of_int (n + m)" by simp
  then show ?thesis by (rule wholeI)
qed

lemma whole_diff: "whole x \<Longrightarrow> whole y \<Longrightarrow> whole (x - y)"
proof -
  assume "whole x" and "whole y"
  then obtain n m where "x = of_int n" "y = of_int m" using wholeE by blast
  then have "x - y = of_int (n - m)" by simp
  then show ?thesis by (rule wholeI)
qed

lemma whole_numeral [simp]: "whole (numeral k)" "whole 0" "whole 1"
  by (simp_all add: whole_def)

lemma fl_whole:
  assumes "whole x" and "\<bar>x\<bar> < 2 ^ 53"
  shows "fl x = x"
proof -
  obtain n where x: "x = of_int n" using assms(1) wholeE by blast
  have "\<bar>of_int n :: real\<bar> < of_int (2 ^ 53)" using assms(2) x by simp
  then have "(of_int \<bar>n\<bar> :: real) < of_int (2 ^ 53)" by (simp only: of_int_abs)
  then have "\<bar>n\<bar> < 2 ^ 53" by (simp only: of_int_less_iff)
  then have "fl (of_int n) = of_int n" by (rule fl_int)
  with x show ?thesis by simp
qed

lemma fl_numeral: "(numeral k :: int) < 2 ^ 53 \<Longrightarrow> fl (numeral k) = numeral k"
  using fl_int [of "numeral k"] by simp

lemma fl_1: "fl 1 = 1"
  using fl_int [of 1] by simp

text \<open>The literal \<open>0.1\<close> denotes \<open>tenth\<close>.\<close>

lemma tenth_literal: "fl (1 / 10) = tenth"
  unfolding tenth_def
  by (subst fl_at [where e = "- 4"]) (simp_all add: rhe_def powr_neg_numeral)

section \<open>Properties of Job\<close>

subsection \<open>Fields that the methods leave alone\<close>

lemma start_fields [simp]:
  "penalized (start h j) = penalized j"
  "deadline (start h j) = deadline j"
  "remaining (start h j) = remaining j"
  "duration (start h j) = duration j"
  "powerKw (start h j) = powerKw j"
  "priority (start h j) = priority j"
  "flexible (start h j) = flexible j"
  "(status (start h j) = DONE) = (status j = DONE)"
  by (simp_all add: start_def)

lemma runStep_fields [simp]:
  "penalized (runStep dt h j) = penalized j"
  "deadline (runStep dt h j) = deadline j"
  "duration (runStep dt h j) = duration j"
  "powerKw (runStep dt h j) = powerKw j"
  "priority (runStep dt h j) = priority j"
  "flexible (runStep dt h j) = flexible j"
  by (simp_all add: runStep_def Let_def)

lemma deadlineMissed_fields [simp]:
  "deadline (snd (deadlineMissed h j)) = deadline j"
  "remaining (snd (deadlineMissed h j)) = remaining j"
  "duration (snd (deadlineMissed h j)) = duration j"
  "status (snd (deadlineMissed h j)) = status j"
  "powerKw (snd (deadlineMissed h j)) = powerKw j"
  "priority (snd (deadlineMissed h j)) = priority j"
  "flexible (snd (deadlineMissed h j)) = flexible j"
  "startHour (snd (deadlineMissed h j)) = startHour j"
  by (simp_all add: deadlineMissed_def split: option.splits)

lemma deadlineMissed_result:
  "fst (deadlineMissed h j) =
     (\<exists>d. deadline j = Some d \<and> h > d \<and> status j \<noteq> DONE \<and> \<not> penalized j)"
  by (simp add: deadlineMissed_def split: option.splits)

lemma deadlineMissed_penalized:
  "penalized (snd (deadlineMissed h j)) = (penalized j \<or> fst (deadlineMissed h j))"
  by (auto simp: deadlineMissed_def split: option.splits)

lemma call_penalized: "penalized j \<Longrightarrow> penalized (snd (call c j))"
  by (cases c) (simp_all add: deadlineMissed_penalized)

lemma call_deadline: "deadline (snd (call c j)) = deadline j"
  by (cases c) (simp_all)

lemma call_penalized_no_True: "penalized j \<Longrightarrow> True \<notin> set (fst (call c j))"
  by (cases c) (simp_all add: deadlineMissed_result)

lemma call_no_deadline_no_True: "deadline j = None \<Longrightarrow> True \<notin> set (fst (call c j))"
  by (cases c) (simp_all add: deadlineMissed_result)

lemma call_True_penalized: "True \<in> set (fst (call c j)) \<Longrightarrow> penalized (snd (call c j))"
  by (cases c) (simp_all add: deadlineMissed_penalized)

lemma call_count: "length (filter (\<lambda>b. b) (fst (call c j))) \<le> 1"
  by (cases c) (simp_all)

lemma calls_Cons:
  "fst (calls (c # cs) j) = fst (call c j) @ fst (calls cs (snd (call c j)))"
  "snd (calls (c # cs) j) = snd (calls cs (snd (call c j)))"
  by (simp_all)

lemma calls_penalized_no_True: "penalized j \<Longrightarrow> True \<notin> set (fst (calls cs j))"
proof (induction cs arbitrary: j)
  case Nil
  then show ?case by simp
next
  case (Cons c cs)
  from Cons.prems have "penalized (snd (call c j))" by (rule call_penalized)
  then have "True \<notin> set (fst (calls cs (snd (call c j))))" by (rule Cons.IH)
  moreover from Cons.prems have "True \<notin> set (fst (call c j))" by (rule call_penalized_no_True)
  ultimately show ?case by (simp only: calls_Cons set_append Un_iff) blast
qed

lemma calls_no_deadline_no_True: "deadline j = None \<Longrightarrow> True \<notin> set (fst (calls cs j))"
proof (induction cs arbitrary: j)
  case Nil
  then show ?case by simp
next
  case (Cons c cs)
  from Cons.prems have "deadline (snd (call c j)) = None" by (simp add: call_deadline)
  then have "True \<notin> set (fst (calls cs (snd (call c j))))" by (rule Cons.IH)
  moreover from Cons.prems have "True \<notin> set (fst (call c j))" by (rule call_no_deadline_no_True)
  ultimately show ?case by (simp only: calls_Cons set_append Un_iff) blast
qed

lemma filter_True_empty: "True \<notin> set bs \<Longrightarrow> filter (\<lambda>b. b) bs = []"
  by (induction bs) auto

lemma calls_count: "length (filter (\<lambda>b. b) (fst (calls cs j))) \<le> 1"
proof (induction cs arbitrary: j)
  case Nil
  then show ?case by simp
next
  case (Cons c cs)
  show ?case
  proof (cases "True \<in> set (fst (call c j))")
    case True
    then have "penalized (snd (call c j))" by (rule call_True_penalized)
    then have "True \<notin> set (fst (calls cs (snd (call c j))))" by (rule calls_penalized_no_True)
    then have "filter (\<lambda>b. b) (fst (calls cs (snd (call c j)))) = []" by (rule filter_True_empty)
    then show ?thesis using call_count [of c j] by (simp add: calls_Cons)
  next
    case False
    then have "filter (\<lambda>b. b) (fst (call c j)) = []" by (rule filter_True_empty)
    then show ?thesis using Cons.IH [of "snd (call c j)"] by (simp add: calls_Cons)
  qed
qed

text \<open>
  Claim C3. \<open>deadlineMissed(hour)\<close> returns true exactly when the job has a deadline
  that \<open>hour\<close> exceeds, its status is not DONE and it is not yet penalized; a call that
  returns true sets \<open>penalized\<close>, and no call of any later call sequence returns true;
  a job without deadline never gets true; and in every call sequence on every job at
  most one \<open>deadlineMissed\<close> call returns true.
\<close>

theorem deadlineMissed_true_at_most_once:
  "fst (deadlineMissed h j) =
     (\<exists>d. deadline j = Some d \<and> h > d \<and> status j \<noteq> DONE \<and> \<not> penalized j)
   \<and> (fst (deadlineMissed h j) \<longrightarrow>
        penalized (snd (deadlineMissed h j))
        \<and> True \<notin> set (fst (calls cs (snd (deadlineMissed h j)))))
   \<and> (deadline j = None \<longrightarrow> \<not> fst (deadlineMissed h j) \<and> True \<notin> set (fst (calls cs j)))
   \<and> length (filter (\<lambda>b. b) (fst (calls cs j))) \<le> 1"
proof -
  have a: "fst (deadlineMissed h j) =
     (\<exists>d. deadline j = Some d \<and> h > d \<and> status j \<noteq> DONE \<and> \<not> penalized j)"
    by (rule deadlineMissed_result)
  have b: "fst (deadlineMissed h j) \<longrightarrow>
        penalized (snd (deadlineMissed h j))
        \<and> True \<notin> set (fst (calls cs (snd (deadlineMissed h j))))"
    using calls_penalized_no_True [of "snd (deadlineMissed h j)" cs]
    by (simp add: deadlineMissed_penalized)
  have c: "deadline j = None \<longrightarrow> \<not> fst (deadlineMissed h j) \<and> True \<notin> set (fst (calls cs j))"
    using calls_no_deadline_no_True [of j cs] by (simp add: deadlineMissed_result)
  from a b c calls_count [of cs j] show ?thesis by blast
qed

theorem deadlineMissed_true_at_most_once_witness:
  "fst (deadlineMissed 2 jobA)
   \<and> penalized (snd (deadlineMissed 2 jobA))
   \<and> True \<notin> set (fst (calls [RunStep 10 2, DeadlineMissed 3, DeadlineMissed 4] (snd (deadlineMissed 2 jobA))))
   \<and> fst (calls [DeadlineMissed (1/2), DeadlineMissed 2, RunStep 10 2, DeadlineMissed 3] jobA) = [False, True, False]
   \<and> \<not> fst (deadlineMissed 2 (jobA\<lparr>deadline := None\<rparr>))"
  using deadlineMissed_true_at_most_once [of 2 jobA "[RunStep 10 2, DeadlineMissed 3, DeadlineMissed 4]"]
        deadlineMissed_true_at_most_once [of 2 "jobA\<lparr>deadline := None\<rparr>" "[]"]
  by (simp add: jobA_def new_Job_def deadlineMissed_def runStep_def start_def Let_def
      fsub_def fl_numeral)

lemma runStep_DONE: "status j = DONE \<Longrightarrow> runStep dt h j = j"
  by (simp add: runStep_def)

lemma runStep_remaining:
  "status j \<noteq> DONE \<Longrightarrow>
   remaining (runStep dt h j)
     = (if fsub (remaining j) dt \<le> 0 then 0 else fsub (remaining j) dt)"
  by (simp add: runStep_def Let_def)

lemma runStep_status_DONE:
  "status j \<noteq> DONE \<Longrightarrow> (status (runStep dt h j) = DONE) = (fsub (remaining j) dt \<le> 0)"
  by (simp add: runStep_def Let_def start_def)

lemma remaining_inv_call: "remaining_inv j \<Longrightarrow> remaining_inv (snd (call c j))"
proof (cases c)
  case (Start h)
  then show "remaining_inv j \<Longrightarrow> ?thesis" by (simp add: remaining_inv_def)
next
  case (RunStep dt h)
  assume inv: "remaining_inv j"
  show ?thesis
  proof (cases "status j = DONE")
    case True
    with inv RunStep show ?thesis by (simp add: runStep_DONE)
  next
    case False
    show ?thesis
    proof (cases "fsub (remaining j) dt \<le> 0")
      case True
      with False RunStep show ?thesis
        by (simp add: remaining_inv_def runStep_remaining runStep_status_DONE)
    next
      case pos: False
      with False RunStep show ?thesis
        by (simp add: remaining_inv_def runStep_remaining runStep_status_DONE)
           (simp add: fsub_def fl_idem)
    qed
  qed
next
  case (DeadlineMissed h)
  then show "remaining_inv j \<Longrightarrow> ?thesis" by (simp add: remaining_inv_def)
qed

lemma remaining_inv_calls: "remaining_inv j \<Longrightarrow> remaining_inv (snd (calls cs j))"
proof (induction cs arbitrary: j)
  case Nil
  then show ?case by simp
next
  case (Cons c cs)
  from Cons.prems have "remaining_inv (snd (call c j))" by (rule remaining_inv_call)
  then have "remaining_inv (snd (calls cs (snd (call c j))))" by (rule Cons.IH)
  then show ?case by simp
qed

lemma remaining_inv_new:
  "0 < d \<Longrightarrow> fl d = d \<Longrightarrow> remaining_inv (new_Job nm pw d prio dl flex)"
  by (simp add: remaining_inv_def new_Job_def)

lemma runStep_le:
  assumes "remaining_inv j" and "0 \<le> dt"
  shows "remaining (runStep dt h j) \<le> remaining j"
proof (cases "status j = DONE")
  case True
  then show ?thesis by (simp add: runStep_DONE)
next
  case False
  have "fl (remaining j - dt) \<le> fl (remaining j)" using assms(2) by (intro fl_mono) simp
  then have "fsub (remaining j) dt \<le> remaining j"
    using assms(1) by (simp add: fsub_def remaining_inv_def)
  with False assms(1) show ?thesis by (simp add: runStep_remaining remaining_inv_def)
qed

lemma fsub_whole:
  assumes "whole x" and "whole dt" and "0 \<le> dt" and "0 \<le> x" and "x < 2 ^ 53"
  shows "(fsub x dt \<le> 0) = (x \<le> dt)" and "dt < x \<Longrightarrow> fsub x dt = x - dt"
proof -
  have ex: "fl (x - dt) = x - dt" if "dt < x"
  proof (rule fl_whole)
    show "whole (x - dt)" using assms(1,2) by (rule whole_diff)
    show "\<bar>x - dt\<bar> < 2 ^ 53" using that assms(3,5) by simp
  qed
  then show "dt < x \<Longrightarrow> fsub x dt = x - dt" by (simp add: fsub_def)
  show "(fsub x dt \<le> 0) = (x \<le> dt)"
  proof (cases "x \<le> dt")
    case True
    then have "fl (x - dt) \<le> 0" by (intro fl_nonpos) simp
    with True show ?thesis by (simp add: fsub_def)
  next
    case False
    then have "fl (x - dt) = x - dt" by (intro ex) simp
    with False show ?thesis by (simp add: fsub_def)
  qed
qed

lemma progress_inv_call:
  assumes "progress_inv d a j" and "nonneg_dt c" and "whole_dt c"
    and "whole d" and "d < 2 ^ 53"
  shows "progress_inv d (a + advanced [c]) (snd (call c j))"
proof (cases c)
  case (Start h)
  with assms(1) show ?thesis by (simp add: progress_inv_def start_def)
next
  case (RunStep dt h)
  with assms(2,3) have dt: "0 \<le> dt" "whole dt" by simp_all
  from assms(1) have a: "whole a" "0 \<le> a" by (simp_all add: progress_inv_def)
  have wa: "whole (a + dt)" using a(1) dt(2) by (rule whole_add)
  show ?thesis
  proof (cases "status j = DONE")
    case True
    with assms(1) RunStep dt(1) wa show ?thesis by (simp add: progress_inv_def runStep_DONE)
  next
    case False
    with assms(1) have r: "remaining j = d - a" "a < d" by (simp_all add: progress_inv_def)
    have "whole (d - a)" using assms(4) a(1) by (rule whole_diff)
    moreover have "0 \<le> d - a" "d - a < 2 ^ 53" using r(2) a(2) assms(5) by simp_all
    ultimately have s: "(fsub (d - a) dt \<le> 0) = (d - a \<le> dt)"
      "dt < d - a \<Longrightarrow> fsub (d - a) dt = d - a - dt"
      using dt by (simp_all add: fsub_whole)
    show ?thesis
    proof (cases "d - a \<le> dt")
      case True
      with False RunStep r s(1) a(2) dt(1) wa show ?thesis
        by (simp add: progress_inv_def runStep_remaining runStep_status_DONE)
    next
      case less: False
      then have "fsub (d - a) dt = d - a - dt" by (intro s(2)) simp
      with less False RunStep r s(1) a(2) dt(1) wa show ?thesis
        by (simp add: progress_inv_def runStep_remaining runStep_status_DONE)
    qed
  qed
next
  case (DeadlineMissed h)
  with assms(1) show ?thesis by (simp add: progress_inv_def)
qed

lemma advanced_Cons: "advanced (c # cs) = advanced [c] + advanced cs"
  by (cases c) simp_all

lemma progress_inv_calls:
  "progress_inv d a j \<Longrightarrow> list_all nonneg_dt cs \<Longrightarrow> list_all whole_dt cs \<Longrightarrow>
   whole d \<Longrightarrow> d < 2 ^ 53 \<Longrightarrow>
   progress_inv d (a + advanced cs) (snd (calls cs j))"
proof (induction cs arbitrary: a j)
  case Nil
  then show ?case by simp
next
  case (Cons c cs)
  from Cons.prems have "progress_inv d (a + advanced [c]) (snd (call c j))"
    by (simp add: progress_inv_call)
  moreover from Cons.prems have "list_all nonneg_dt cs" "list_all whole_dt cs" by simp_all
  ultimately have "progress_inv d (a + advanced [c] + advanced cs) (snd (calls cs (snd (call c j))))"
    using Cons.prems(4,5) by (intro Cons.IH)
  then show ?case by (simp add: advanced_Cons [of c cs] add.assoc)
qed

lemma progress_inv_new: "0 < d \<Longrightarrow> progress_inv d 0 (new_Job nm pw d prio dl flex)"
  by (simp add: progress_inv_def new_Job_def whole_def)

text \<open>
  Claim C4, for a job constructed with a positive duration \<open>d\<close>, a binary64 value.
  After any call sequence whose \<open>runStep\<close> calls have non-negative \<open>dtMin\<close>, a further
  \<open>runStep\<close> with non-negative \<open>dtMin\<close> does not increase \<open>remaining\<close>; \<open>remaining\<close> is
  never negative, and positive until the status is DONE; \<open>runStep\<close> changes nothing when
  the status is DONE, and then \<open>remaining\<close> is 0; and when \<open>d\<close> and every \<open>dtMin\<close> are
  whole numbers, \<open>d\<close> below \<open>2 ^ 53\<close>, the status is DONE if and only if the minutes
  advanced so far reach \<open>d\<close>.
\<close>

theorem runStep_remaining_and_DONE:
  assumes "0 < d" and "fl d = d" and "list_all nonneg_dt cs" and "0 \<le> dt"
    and "j = snd (calls cs (new_Job nm pw d prio dl flex))"
  shows "remaining (runStep dt h j) \<le> remaining j
       \<and> 0 \<le> remaining j \<and> 0 \<le> remaining (runStep dt h j)
       \<and> (status j \<noteq> DONE \<longrightarrow> 0 < remaining j)
       \<and> (status j = DONE \<longrightarrow> runStep dt h j = j \<and> remaining j = 0)
       \<and> (whole d \<and> d < 2 ^ 53 \<and> list_all whole_dt cs \<longrightarrow>
            (status j = DONE) = (d \<le> advanced cs))"
proof -
  have inv: "remaining_inv j"
    using remaining_inv_calls [OF remaining_inv_new [OF assms(1,2)], of cs nm pw prio dl flex]
    by (simp add: assms(5))
  then have inv': "remaining_inv (runStep dt h j)"
    using remaining_inv_call [of j "RunStep dt h"] by simp
  have le: "remaining (runStep dt h j) \<le> remaining j" using inv assms(4) by (rule runStep_le)
  have iff: "(status j = DONE) = (d \<le> advanced cs)"
    if w: "whole d \<and> d < 2 ^ 53 \<and> list_all whole_dt cs"
  proof -
    have "progress_inv d (0 + advanced cs) (snd (calls cs (new_Job nm pw d prio dl flex)))"
      using progress_inv_new [OF assms(1)] assms(3) w by (intro progress_inv_calls) simp_all
    then show ?thesis by (auto simp: progress_inv_def assms(5) split: if_splits)
  qed
  from inv inv' have
    "0 \<le> remaining j" "0 \<le> remaining (runStep dt h j)"
    "status j \<noteq> DONE \<longrightarrow> 0 < remaining j"
    "status j = DONE \<longrightarrow> runStep dt h j = j \<and> remaining j = 0"
    by (auto simp: remaining_inv_def runStep_DONE)
  with le iff show ?thesis by blast
qed

theorem runStep_remaining_and_DONE_witness:
  "status (snd (calls [RunStep 10 0, Start 0, RunStep 10 (1/6), DeadlineMissed 2, RunStep 10 (1/3)]
                  (new_Job ''pump'' 2 30 ''High'' (Some 1) True))) = DONE
   \<and> remaining (snd (calls [RunStep 10 0, RunStep 10 (1/6)]
                  (new_Job ''pump'' 2 30 ''High'' (Some 1) True))) = 10
   \<and> status (snd (calls [RunStep 10 0, RunStep 10 (1/6)]
                  (new_Job ''pump'' 2 30 ''High'' (Some 1) True))) \<noteq> DONE"
proof -
  have d: "(0::real) < 30" "fl 30 = 30" "(0::real) \<le> 10" "whole 30" "(30::real) < 2 ^ 53"
    "whole 10"
    by (simp_all add: fl_numeral)
  have a: "status (snd (calls [RunStep 10 0, Start 0, RunStep 10 (1/6), DeadlineMissed 2, RunStep 10 (1/3)]
                  (new_Job ''pump'' 2 30 ''High'' (Some 1) True))) = DONE"
    using runStep_remaining_and_DONE [of 30
          "[RunStep 10 0, Start 0, RunStep 10 (1/6), DeadlineMissed 2, RunStep 10 (1/3)]" 10 _
          "''pump''" 2 "''High''" "Some 1" True 0, OF d(1) d(2) _ d(3) refl] d(4,5,6)
    by simp
  have b: "status (snd (calls [RunStep 10 0, RunStep 10 (1/6)]
                  (new_Job ''pump'' 2 30 ''High'' (Some 1) True))) \<noteq> DONE"
    using runStep_remaining_and_DONE [of 30 "[RunStep 10 0, RunStep 10 (1/6)]" 10 _
          "''pump''" 2 "''High''" "Some 1" True 0, OF d(1) d(2) _ d(3) refl] d(4,5,6)
    by simp
  have c: "remaining (snd (calls [RunStep 10 0, RunStep 10 (1/6)]
                  (new_Job ''pump'' 2 30 ''High'' (Some 1) True))) = 10"
    by (simp add: new_Job_def runStep_def start_def Let_def fsub_def fl_numeral)
  from a b c show ?thesis by blast
qed

text \<open>Five steps of \<open>0.1\<close> minutes from a \<open>remaining\<close> of \<open>0.5\<close>, and their sum in binary64.\<close>

lemma half_step_1: "fsub (1 / 2) tenth = 3602879701896397 / 9007199254740992"
  unfolding fsub_def tenth_def
  by (subst fl_at [where e = "- 2"]) (simp_all add: rhe_def powr_neg_numeral)

lemma half_step_2: "fsub (3602879701896397 / 9007199254740992) tenth = 1351079888211149 / 4503599627370496"
  unfolding fsub_def tenth_def
  by (subst fl_at [where e = "- 2"]) (simp_all add: rhe_def powr_neg_numeral)

lemma half_step_3: "fsub (1351079888211149 / 4503599627370496) tenth = 7205759403792795 / 36028797018963968"
  unfolding fsub_def tenth_def
  by (subst fl_at [where e = "- 3"]) (simp_all add: rhe_def powr_neg_numeral)

lemma half_step_4: "fsub (7205759403792795 / 36028797018963968) tenth = 1801439850948199 / 18014398509481984"
  unfolding fsub_def tenth_def
  by (subst fl_at [where e = "- 4"]) (simp_all add: rhe_def powr_neg_numeral)

lemma half_step_5: "fsub (1801439850948199 / 18014398509481984) tenth = 1 / 36028797018963968"
  unfolding fsub_def tenth_def
  by (subst fl_at [where e = "- 55"]) (simp_all add: rhe_def powr_neg_numeral)

lemma half_sum_1: "fadd (0) tenth = 3602879701896397 / 36028797018963968"
  unfolding fadd_def tenth_def
  by (subst fl_at [where e = "- 4"]) (simp_all add: rhe_def powr_neg_numeral)

lemma half_sum_2: "fadd (3602879701896397 / 36028797018963968) tenth = 3602879701896397 / 18014398509481984"
  unfolding fadd_def tenth_def
  by (subst fl_at [where e = "- 3"]) (simp_all add: rhe_def powr_neg_numeral)

lemma half_sum_3: "fadd (3602879701896397 / 18014398509481984) tenth = 1351079888211149 / 4503599627370496"
  unfolding fadd_def tenth_def
  by (subst fl_at [where e = "- 2"]) (simp_all add: rhe_def powr_neg_numeral)

lemma half_sum_4: "fadd (1351079888211149 / 4503599627370496) tenth = 3602879701896397 / 9007199254740992"
  unfolding fadd_def tenth_def
  by (subst fl_at [where e = "- 2"]) (simp_all add: rhe_def powr_neg_numeral)

lemma half_sum_5: "fadd (3602879701896397 / 9007199254740992) tenth = 1 / 2"
  unfolding fadd_def tenth_def
  by (subst fl_at [where e = "- 1"]) (simp_all add: rhe_def powr_neg_numeral)

lemma five_tenths:
  "snd (calls (replicate 5 (RunStep tenth 0)) (new_Job ''pump'' 2 (1 / 2) ''High'' None True))
     = (new_Job ''pump'' 2 (1 / 2) ''High'' None True)
         \<lparr> remaining := 1 / 36028797018963968, status := RUNNING, startHour := Some 0 \<rparr>"
  by (simp add: numeral_eq_Suc)
     (simp add: new_Job_def runStep_def start_def Let_def
      half_step_1 half_step_2 half_step_3 half_step_4 half_step_5)

lemma five_tenths_sum: "advanced_fl (replicate 5 (RunStep tenth 0)) 0 = 1 / 2"
  by (simp add: numeral_eq_Suc)
     (simp add: half_sum_1 half_sum_2 half_sum_3 half_sum_4 half_sum_5)

lemma advanced_replicate: "advanced (replicate n (RunStep dt h)) = of_nat n * dt"
  by (induction n) (simp_all add: algebra_simps)

text \<open>
  Without the positive duration the statement fails: a job constructed with
  duration \<open>- 60\<close> has a negative \<open>remaining\<close>, which its first \<open>runStep\<close> raises to 0;
  and a job constructed with duration 0 is WAITING, not DONE, although the 0 minutes
  advanced reach its duration. And with a positive duration the status need not be DONE
  when the minutes advanced reach it: after five calls \<open>runStep(0.1)\<close> a job of duration
  \<open>0.5\<close> is RUNNING with a positive \<open>remaining\<close>, while the five steps sum to more than
  \<open>0.5\<close> over the reals and to \<open>0.5\<close> when they are added in binary64.
\<close>

theorem runStep_DONE_counterexample:
  "remaining (new_Job ''pump'' 2 (- 60) ''High'' None True) < 0
   \<and> remaining (runStep 10 0 (new_Job ''pump'' 2 (- 60) ''High'' None True))
       > remaining (new_Job ''pump'' 2 (- 60) ''High'' None True)
   \<and> status (snd (calls [] (new_Job ''pump'' 2 0 ''High'' None True))) \<noteq> DONE
   \<and> 0 \<le> advanced []
   \<and> status (snd (calls (replicate 5 (RunStep tenth 0))
                 (new_Job ''pump'' 2 (1 / 2) ''High'' None True))) = RUNNING
   \<and> 0 < remaining (snd (calls (replicate 5 (RunStep tenth 0))
                 (new_Job ''pump'' 2 (1 / 2) ''High'' None True)))
   \<and> 1 / 2 \<le> advanced (replicate 5 (RunStep tenth 0))
   \<and> 1 / 2 \<le> advanced_fl (replicate 5 (RunStep tenth 0)) 0"
proof -
  have "fl (- 70) \<le> 0" by (intro fl_nonpos) simp
  then have a: "remaining (runStep 10 0 (new_Job ''pump'' 2 (- 60) ''High'' None True)) = 0"
    by (simp add: new_Job_def runStep_def start_def Let_def fsub_def)
  have b: "remaining (new_Job ''pump'' 2 (- 60) ''High'' None True) < 0"
    "status (snd (calls [] (new_Job ''pump'' 2 0 ''High'' None True))) \<noteq> DONE"
    by (simp_all add: new_Job_def)
  have c: "(1::real) / 2 \<le> advanced (replicate 5 (RunStep tenth 0))"
    by (simp add: advanced_replicate tenth_def)
  show ?thesis
    unfolding five_tenths five_tenths_sum a using b c by simp
qed

text \<open>
  Ten steps of \<open>0.1\<close> minutes from a \<open>remaining\<close> of 1: the job is RUNNING, with about
  \<open>1.39e-16\<close> minutes remaining.
\<close>

lemma tenth_step_1: "fsub (1) tenth = 8106479329266893 / 9007199254740992"
  unfolding fsub_def tenth_def
  by (subst fl_at [where e = "- 1"]) (simp_all add: rhe_def powr_neg_numeral)

lemma tenth_step_2: "fsub (8106479329266893 / 9007199254740992) tenth = 3602879701896397 / 4503599627370496"
  unfolding fsub_def tenth_def
  by (subst fl_at [where e = "- 1"]) (simp_all add: rhe_def powr_neg_numeral)

lemma tenth_step_3: "fsub (3602879701896397 / 4503599627370496) tenth = 6305039478318695 / 9007199254740992"
  unfolding fsub_def tenth_def
  by (subst fl_at [where e = "- 1"]) (simp_all add: rhe_def powr_neg_numeral)

lemma tenth_step_4: "fsub (6305039478318695 / 9007199254740992) tenth = 1351079888211149 / 2251799813685248"
  unfolding fsub_def tenth_def
  by (subst fl_at [where e = "- 1"]) (simp_all add: rhe_def powr_neg_numeral)

lemma tenth_step_5: "fsub (1351079888211149 / 2251799813685248) tenth = 4503599627370497 / 9007199254740992"
  unfolding fsub_def tenth_def
  by (subst fl_at [where e = "- 1"]) (simp_all add: rhe_def powr_neg_numeral)

lemma tenth_step_6: "fsub (4503599627370497 / 9007199254740992) tenth = 1801439850948199 / 4503599627370496"
  unfolding fsub_def tenth_def
  by (subst fl_at [where e = "- 2"]) (simp_all add: rhe_def powr_neg_numeral)

lemma tenth_step_7: "fsub (1801439850948199 / 4503599627370496) tenth = 2702159776422299 / 9007199254740992"
  unfolding fsub_def tenth_def
  by (subst fl_at [where e = "- 2"]) (simp_all add: rhe_def powr_neg_numeral)

lemma tenth_step_8: "fsub (2702159776422299 / 9007199254740992) tenth = 7205759403792799 / 36028797018963968"
  unfolding fsub_def tenth_def
  by (subst fl_at [where e = "- 3"]) (simp_all add: rhe_def powr_neg_numeral)

lemma tenth_step_9: "fsub (7205759403792799 / 36028797018963968) tenth = 1801439850948201 / 18014398509481984"
  unfolding fsub_def tenth_def
  by (subst fl_at [where e = "- 4"]) (simp_all add: rhe_def powr_neg_numeral)

lemma tenth_step_10: "fsub (1801439850948201 / 18014398509481984) tenth = 5 / 36028797018963968"
  unfolding fsub_def tenth_def
  by (subst fl_at [where e = "- 53"]) (simp_all add: rhe_def powr_neg_numeral)

lemma ten_tenths:
  "snd (calls (replicate 10 (RunStep tenth 0)) (new_Job ''pump'' 2 1 ''High'' None True))
     = (new_Job ''pump'' 2 1 ''High'' None True)
         \<lparr> remaining := 5 / 36028797018963968, status := RUNNING, startHour := Some 0 \<rparr>"
  by (simp add: numeral_eq_Suc)
     (simp add: new_Job_def runStep_def start_def Let_def
      tenth_step_1 tenth_step_2 tenth_step_3 tenth_step_4 tenth_step_5
      tenth_step_6 tenth_step_7 tenth_step_8 tenth_step_9 tenth_step_10)



text \<open>
  The binary64 value \<open>urgencyScore_fl\<close> has the same three cases, for a deadline and an
  hour that are binary64 values; its quotient is the rounded quotient of the rounded
  operands.
\<close>

lemma urgencyScore_fl_cases:
  "(deadline j = None \<longrightarrow> urgencyScore_fl h j = 0)
   \<and> (\<forall>d. deadline j = Some d \<and> d - h \<le> 0 \<longrightarrow> urgencyScore_fl h j = 999)
   \<and> (\<forall>d. deadline j = Some d \<and> 0 < d - h \<and> fl d = d \<and> fl h = h \<longrightarrow>
          urgencyScore_fl h j = fdiv (fdiv (remaining j) 60) (fsub d h))"
proof -
  have "fsub d h \<le> 0" if "d - h \<le> 0" for d
    unfolding fsub_def using that by (rule fl_nonpos)
  moreover have "\<not> fsub d h \<le> 0" if "0 < d - h" "fl d = d" "fl h = h" for d
    unfolding fsub_def using that by (simp add: fsub_sign)
  ultimately show ?thesis
    by (auto simp: urgencyScore_fl_def Let_def split: option.splits)
qed

section \<open>Properties of the schedulers\<close>

subsection \<open>The store under start\<close>

lemma start_idem: "start h (start h j) = start h j"
  by (simp add: start_def)

lemma store_start_powerKw:
  "powerKw (store[i := start h (store ! i)] ! k) = powerKw (store ! k)"
  by (cases "i < length store") (simp_all add: nth_list_update list_update_beyond)

subsection \<open>SmartScheduler.schedule: capacity\<close>






lemma np: "normalizePriority ''high'' = High"
  by code_simp


subsection \<open>BaselineScheduler.schedule\<close>

lemma store_started_nth:
  "k < length store \<Longrightarrow>
   foldl (\<lambda>s i. s[i := start h (s ! i)]) store refs ! k
     = (if k \<in> set refs then start h (store ! k) else store ! k)"
proof (induction refs arbitrary: store)
  case Nil
  then show ?case by simp
next
  case (Cons i refs)
  have "k < length (store[i := start h (store ! i)])" using Cons.prems by simp
  from Cons.IH [OF this] show ?case
    using Cons.prems by (cases "k = i") (simp_all add: start_idem)
qed

lemma store_started_length:
  "length (foldl (\<lambda>s i. s[i := start h (s ! i)]) store refs) = length store"
  by (induction refs arbitrary: store) simp_all

lemma baseline_loop_prefix:
  assumes "\<forall>k. powerKw (store ! k) = powerKw (js ! k)"
  shows "\<exists>n\<le>length rest.
      fst (snd (baseline_loop h rest (store, run, tot))) = run @ take n rest
    \<and> fst (baseline_loop h rest (store, run, tot))
        = foldl (\<lambda>s i. s[i := start h (s ! i)]) store (take n rest)
    \<and> (\<forall>m<n. fadd (foldl fadd tot (map (\<lambda>i. powerKw (js ! i)) (take m rest)))
                  (powerKw (js ! (rest ! m))) \<le> MAX_DATA_HUB_POWER)
    \<and> (n < length rest \<longrightarrow>
          fadd (foldl fadd tot (map (\<lambda>i. powerKw (js ! i)) (take n rest)))
            (powerKw (js ! (rest ! n))) > MAX_DATA_HUB_POWER)"
  using assms
proof (induction rest arbitrary: store run tot)
  case Nil
  then show ?case by simp
next
  case (Cons i rest)
  have eq: "powerKw (store ! i) = powerKw (js ! i)" using Cons.prems by simp
  show ?case
  proof (cases "fadd tot (powerKw (store ! i)) \<le> MAX_DATA_HUB_POWER")
    case True
    have pw: "\<forall>k. powerKw (store[i := start h (store ! i)] ! k) = powerKw (js ! k)"
      using Cons.prems by (simp add: store_start_powerKw)
    from Cons.IH [OF pw, of "run @ [i]" "fadd tot (powerKw (store ! i))"]
    obtain n where n: "n \<le> length rest"
      "fst (snd (baseline_loop h rest (store[i := start h (store ! i)], run @ [i],
                   fadd tot (powerKw (store ! i)))))
         = (run @ [i]) @ take n rest"
      "fst (baseline_loop h rest (store[i := start h (store ! i)], run @ [i],
              fadd tot (powerKw (store ! i))))
         = foldl (\<lambda>s i. s[i := start h (s ! i)]) (store[i := start h (store ! i)]) (take n rest)"
      "\<forall>m<n. fadd (foldl fadd (fadd tot (powerKw (store ! i)))
                       (map (\<lambda>i. powerKw (js ! i)) (take m rest)))
                  (powerKw (js ! (rest ! m))) \<le> MAX_DATA_HUB_POWER"
      "n < length rest \<longrightarrow>
          fadd (foldl fadd (fadd tot (powerKw (store ! i)))
                  (map (\<lambda>i. powerKw (js ! i)) (take n rest)))
            (powerKw (js ! (rest ! n))) > MAX_DATA_HUB_POWER"
      by blast
    have a: "Suc n \<le> length (i # rest)" using n(1) by simp
    have b: "fst (snd (baseline_loop h (i # rest) (store, run, tot))) = run @ take (Suc n) (i # rest)"
      using True n(2) by simp
    have c: "fst (baseline_loop h (i # rest) (store, run, tot))
        = foldl (\<lambda>s i. s[i := start h (s ! i)]) store (take (Suc n) (i # rest))"
      using True n(3) by simp
    have d: "\<forall>m<Suc n. fadd (foldl fadd tot (map (\<lambda>i. powerKw (js ! i)) (take m (i # rest))))
                  (powerKw (js ! ((i # rest) ! m))) \<le> MAX_DATA_HUB_POWER"
    proof (intro allI impI)
      fix m assume m: "m < Suc n"
      show "fadd (foldl fadd tot (map (\<lambda>i. powerKw (js ! i)) (take m (i # rest))))
              (powerKw (js ! ((i # rest) ! m))) \<le> MAX_DATA_HUB_POWER"
      proof (cases m)
        case 0
        then show ?thesis using True eq by simp
      next
        case (Suc m')
        then have "m' < n" using m by simp
        with n(4) have "fadd (foldl fadd (fadd tot (powerKw (store ! i)))
                       (map (\<lambda>i. powerKw (js ! i)) (take m' rest)))
                  (powerKw (js ! (rest ! m'))) \<le> MAX_DATA_HUB_POWER"
          by blast
        then show ?thesis using Suc eq by simp
      qed
    qed
    have e: "Suc n < length (i # rest) \<longrightarrow>
          fadd (foldl fadd tot (map (\<lambda>i. powerKw (js ! i)) (take (Suc n) (i # rest))))
            (powerKw (js ! ((i # rest) ! Suc n))) > MAX_DATA_HUB_POWER"
      using n(5) eq by simp
    from a b c d e show ?thesis by blast
  next
    case False
    then have "fst (snd (baseline_loop h (i # rest) (store, run, tot))) = run @ take 0 (i # rest)"
      "fst (baseline_loop h (i # rest) (store, run, tot))
        = foldl (\<lambda>s i. s[i := start h (s ! i)]) store (take 0 (i # rest))"
      by simp_all
    moreover have "0 < length (i # rest) \<longrightarrow>
          fadd (foldl fadd tot (map (\<lambda>i. powerKw (js ! i)) (take 0 (i # rest))))
            (powerKw (js ! ((i # rest) ! 0))) > MAX_DATA_HUB_POWER"
      using False eq by simp
    ultimately show ?thesis by (intro exI [of _ 0]) simp
  qed
qed

lemma waiting_refs_sorted: "sorted_wrt (<) (waiting_refs js)"
  unfolding waiting_refs_def by (intro sorted_wrt_filter) simp

lemma waiting_refs_set:
  "set (waiting_refs js) = {i. i < length js \<and> status (js ! i) = WAITING}"
  by (auto simp: waiting_refs_def)

text \<open>
  Claim C6. The jobs that \<open>BaselineScheduler.schedule\<close> considers, \<open>waiting_refs\<close>, are
  the WAITING jobs of the \<open>jobs\<close> array, each once and in the order of the array. The
  call admits a prefix of them, of some length \<open>n\<close>: for every job of the prefix the
  accumulator, which starts at \<open>BASELINE_BACKGROUND_LOAD\<close> and to which the powers of
  the jobs before it have been added in binary64, stays within \<open>MAX_DATA_HUB_POWER\<close> when
  the power of the job is added; for the waiting job after the prefix, when there is
  one, it does not; and exactly the jobs of the prefix are started, whatever the
  priority or the power of the jobs behind it.
\<close>

theorem baseline_admits_fifo_prefix:
  "sorted_wrt (<) (waiting_refs js)
   \<and> set (waiting_refs js) = {i. i < length js \<and> status (js ! i) = WAITING}
   \<and> baseline_total js [] = BASELINE_BACKGROUND_LOAD
   \<and> (\<exists>n\<le>length (waiting_refs js).
        fst (BaselineScheduler_schedule s t h js) = take n (waiting_refs js)
      \<and> (\<forall>m<n. fadd (baseline_total js (take m (waiting_refs js)))
                    (powerKw (js ! (waiting_refs js ! m))) \<le> MAX_DATA_HUB_POWER)
      \<and> (n < length (waiting_refs js) \<longrightarrow>
            fadd (baseline_total js (take n (waiting_refs js)))
              (powerKw (js ! (waiting_refs js ! n))) > MAX_DATA_HUB_POWER)
      \<and> length (snd (BaselineScheduler_schedule s t h js)) = length js
      \<and> (\<forall>k<length js. snd (BaselineScheduler_schedule s t h js) ! k
              = (if k \<in> set (take n (waiting_refs js)) then start h (js ! k) else js ! k)))"
proof -
  have "\<forall>k. powerKw (js ! k) = powerKw (js ! k)" by simp
  from baseline_loop_prefix [OF this, of "waiting_refs js" h "[]" BASELINE_BACKGROUND_LOAD]
  obtain n where n: "n \<le> length (waiting_refs js)"
    "fst (snd (baseline_loop h (waiting_refs js) (js, [], BASELINE_BACKGROUND_LOAD)))
       = [] @ take n (waiting_refs js)"
    "fst (baseline_loop h (waiting_refs js) (js, [], BASELINE_BACKGROUND_LOAD))
       = foldl (\<lambda>s i. s[i := start h (s ! i)]) js (take n (waiting_refs js))"
    "\<forall>m<n. fadd (baseline_total js (take m (waiting_refs js)))
                (powerKw (js ! (waiting_refs js ! m))) \<le> MAX_DATA_HUB_POWER"
    "n < length (waiting_refs js) \<longrightarrow>
          fadd (baseline_total js (take n (waiting_refs js)))
            (powerKw (js ! (waiting_refs js ! n))) > MAX_DATA_HUB_POWER"
    unfolding baseline_total_def by blast
  have res: "fst (BaselineScheduler_schedule s t h js) = take n (waiting_refs js)"
    "snd (BaselineScheduler_schedule s t h js)
       = foldl (\<lambda>s i. s[i := start h (s ! i)]) js (take n (waiting_refs js))"
    using n(2,3) by (simp_all add: BaselineScheduler_schedule_def Let_def)
  have len: "length (snd (BaselineScheduler_schedule s t h js)) = length js"
    by (simp add: res(2) store_started_length)
  have nth: "\<forall>k<length js. snd (BaselineScheduler_schedule s t h js) ! k
            = (if k \<in> set (take n (waiting_refs js)) then start h (js ! k) else js ! k)"
    by (simp add: res(2) store_started_nth)
  have init: "baseline_total js [] = BASELINE_BACKGROUND_LOAD"
    by (simp add: baseline_total_def)
  from n(1) res(1) n(4) n(5) len nth
  have "\<exists>n\<le>length (waiting_refs js).
        fst (BaselineScheduler_schedule s t h js) = take n (waiting_refs js)
      \<and> (\<forall>m<n. fadd (baseline_total js (take m (waiting_refs js)))
                    (powerKw (js ! (waiting_refs js ! m))) \<le> MAX_DATA_HUB_POWER)
      \<and> (n < length (waiting_refs js) \<longrightarrow>
            fadd (baseline_total js (take n (waiting_refs js)))
              (powerKw (js ! (waiting_refs js ! n))) > MAX_DATA_HUB_POWER)
      \<and> length (snd (BaselineScheduler_schedule s t h js)) = length js
      \<and> (\<forall>k<length js. snd (BaselineScheduler_schedule s t h js) ! k
              = (if k \<in> set (take n (waiting_refs js)) then start h (js ! k) else js ! k))"
    by blast
  with waiting_refs_sorted [of js] waiting_refs_set [of js] init show ?thesis by blast
qed

lemma np_low: "normalizePriority ''low'' = Low" by code_simp
lemma np_critical: "normalizePriority ''critical'' = Critical" by code_simp

lemma jobs_fifo_status:
  "length jobs_fifo = 4"
  "status (jobs_fifo ! 0) = RUNNING" "status (jobs_fifo ! Suc 0) = WAITING"
  "status (jobs_fifo ! 2) = WAITING" "status (jobs_fifo ! 3) = WAITING"
  "powerKw (jobs_fifo ! Suc 0) = 4" "powerKw (jobs_fifo ! 2) = 5" "powerKw (jobs_fifo ! 3) = 1"
  by (simp_all add: jobs_fifo_def new_Job_def)

lemma waiting_refs_fifo: "waiting_refs jobs_fifo = [1, 2, 3]"
  by (simp add: waiting_refs_def jobs_fifo_def new_Job_def upt_rec)

text \<open>
  The running job of 9 kW at the head of the array is not considered; the first waiting
  job is admitted, the second does not fit, and the critical job of 1 kW behind it,
  which would fit, stays WAITING.
\<close>

theorem baseline_admits_fifo_prefix_witness:
  "waiting_refs jobs_fifo = [1, 2, 3]
   \<and> fst (BaselineScheduler_schedule 0 25 0 jobs_fifo) = [1]
   \<and> snd (BaselineScheduler_schedule 0 25 0 jobs_fifo) ! 0 = jobs_fifo ! 0
   \<and> status (snd (BaselineScheduler_schedule 0 25 0 jobs_fifo) ! 1) = RUNNING
   \<and> status (snd (BaselineScheduler_schedule 0 25 0 jobs_fifo) ! 3) = WAITING"
proof -
  from baseline_admits_fifo_prefix [of jobs_fifo 0 25 0]
  obtain n where n: "n \<le> length (waiting_refs jobs_fifo)"
    "fst (BaselineScheduler_schedule 0 25 0 jobs_fifo) = take n (waiting_refs jobs_fifo)"
    "\<forall>m<n. fadd (baseline_total jobs_fifo (take m (waiting_refs jobs_fifo)))
              (powerKw (jobs_fifo ! (waiting_refs jobs_fifo ! m))) \<le> MAX_DATA_HUB_POWER"
    "n < length (waiting_refs jobs_fifo) \<longrightarrow>
       fadd (baseline_total jobs_fifo (take n (waiting_refs jobs_fifo)))
         (powerKw (jobs_fifo ! (waiting_refs jobs_fifo ! n))) > MAX_DATA_HUB_POWER"
    "\<forall>k<length jobs_fifo. snd (BaselineScheduler_schedule 0 25 0 jobs_fifo) ! k
        = (if k \<in> set (take n (waiting_refs jobs_fifo)) then start 0 (jobs_fifo ! k)
           else jobs_fifo ! k)"
    by blast
  note w = waiting_refs_fifo
  have "\<not> 1 < n"
  proof
    assume "1 < n"
    then have "Suc 0 < n" by simp
    with n(3) have "fadd (baseline_total jobs_fifo (take (Suc 0) (waiting_refs jobs_fifo)))
              (powerKw (jobs_fifo ! (waiting_refs jobs_fifo ! Suc 0))) \<le> MAX_DATA_HUB_POWER"
      by blast
    then show False
      by (simp add: w baseline_total_def jobs_fifo_status fadd_def fl_numeral
          MAX_DATA_HUB_POWER_def BASELINE_BACKGROUND_LOAD_def)
  qed
  moreover have "n \<noteq> 0"
  proof
    assume "n = 0"
    with n(4) have "fadd (baseline_total jobs_fifo []) (powerKw (jobs_fifo ! (waiting_refs jobs_fifo ! 0)))
         > MAX_DATA_HUB_POWER"
      by (simp add: w)
    then show False
      by (simp add: w baseline_total_def jobs_fifo_status fadd_def fl_numeral
          MAX_DATA_HUB_POWER_def BASELINE_BACKGROUND_LOAD_def)
  qed
  ultimately have one: "n = 1" by simp
  have a: "fst (BaselineScheduler_schedule 0 25 0 jobs_fifo) = [1]"
    using n(2) one by (simp add: w)
  have b: "snd (BaselineScheduler_schedule 0 25 0 jobs_fifo) ! 0 = jobs_fifo ! 0"
    "snd (BaselineScheduler_schedule 0 25 0 jobs_fifo) ! Suc 0 = start 0 (jobs_fifo ! Suc 0)"
    "snd (BaselineScheduler_schedule 0 25 0 jobs_fifo) ! 3 = jobs_fifo ! 3"
    using n(5) one by (simp_all add: w jobs_fifo_status)
  show ?thesis
    by (simp add: w a b) (simp add: jobs_fifo_status start_def)
qed

text \<open>
  Three waiting jobs with the powers \<open>0.2\<close>, \<open>4.9\<close> and \<open>1.9\<close>: the decimal numbers add up
  to the capacity on top of the background load, but the accumulator, in binary64, has
  passed it with the third job, which is not admitted.
\<close>

lemma literal_0_2: "fl (1 / 5) = 3602879701896397 / 18014398509481984"
  by (subst fl_at [where e = "- 3"]) (simp_all add: rhe_def powr_neg_numeral)

lemma literal_4_9: "fl (49 / 10) = 2758454771764429 / 562949953421312"
  by (subst fl_at [where e = "2"]) (simp_all add: rhe_def powr_neg_numeral)

lemma literal_1_9: "fl (19 / 10) = 4278419646001971 / 2251799813685248"
  by (subst fl_at [where e = "0"]) (simp_all add: rhe_def powr_neg_numeral)

lemma accumulator_1: "fadd (3) (3602879701896397 / 18014398509481984) = 3602879701896397 / 1125899906842624"
  unfolding fadd_def
  by (subst fl_at [where e = "1"]) (simp_all add: rhe_def powr_neg_numeral)

lemma accumulator_2: "fadd (3602879701896397 / 1125899906842624) (2758454771764429 / 562949953421312) = 1139973655678157 / 140737488355328"
  unfolding fadd_def
  by (subst fl_at [where e = "3"]) (simp_all add: rhe_def powr_neg_numeral)

lemma accumulator_3: "fadd (1139973655678157 / 140737488355328) (4278419646001971 / 2251799813685248) = 5629499534213121 / 562949953421312"
  unfolding fadd_def
  by (subst fl_at [where e = "3"]) (simp_all add: rhe_def powr_neg_numeral)

lemma baseline_decimal_example:
  "fst (BaselineScheduler_schedule 0 25 0 jobs_decimal) = [0, 1]
   \<and> BASELINE_BACKGROUND_LOAD + 2 / 10 + 49 / 10 + 19 / 10 \<le> MAX_DATA_HUB_POWER"
  by (simp add: BaselineScheduler_schedule_def Let_def waiting_refs_def jobs_decimal_def
      new_Job_def upt_rec literal_0_2 literal_4_9 literal_1_9
      accumulator_1 accumulator_2 accumulator_3
      MAX_DATA_HUB_POWER_def BASELINE_BACKGROUND_LOAD_def)

subsection \<open>SmartScheduler.schedule: the solar preference of medium jobs\<close>

lemma smart_body_untouched:
  assumes "s < 1" and "priority (js ! i) = Medium" and "flexible (js ! i)"
    and "untouched js i st"
  shows "untouched js i (smart_body s t h st k)"
proof (cases "k = i")
  case True
  with assms show ?thesis
    by (cases st) (simp add: untouched_def smart_body_def Let_def)
next
  case False
  with assms(4) show ?thesis
    by (cases st) (simp add: untouched_def smart_body_def Let_def)
qed

lemma smart_loop_untouched:
  assumes "s < 1" and "priority (js ! i) = Medium" and "flexible (js ! i)"
  shows "untouched js i st \<Longrightarrow> untouched js i (smart_loop s t h refs st)"
  unfolding smart_loop_def
  by (induction refs arbitrary: st) (simp_all add: smart_body_untouched [OF assms])

lemma smart_schedule_skips:
  assumes "s < 1" and "priority (js ! i) = Medium" and "flexible (js ! i)"
  shows "i \<notin> set (fst (SmartScheduler_schedule s t h js))"
    and "snd (SmartScheduler_schedule s t h js) ! i = js ! i"
proof -
  have "untouched js i (js, [], 0)" by (simp add: untouched_def)
  from smart_loop_untouched [OF assms this, of t h "prioritizeJobs js (waiting_refs js) h s"]
  show "i \<notin> set (fst (SmartScheduler_schedule s t h js))"
    and "snd (SmartScheduler_schedule s t h js) ! i = js ! i"
    by (simp_all add: untouched_def SmartScheduler_schedule_def Let_def)
qed

lemma smart_body_length: "length (fst (smart_body s t h st k)) = length (fst st)"
  by (cases st) (simp add: smart_body_def Let_def)

lemma smart_loop_length: "length (fst (smart_loop s t h refs st)) = length (fst st)"
  unfolding smart_loop_def
  by (induction refs arbitrary: st) (simp_all add: smart_body_length)

lemma smart_schedule_length: "length (snd (SmartScheduler_schedule s t h js)) = length js"
  by (simp add: SmartScheduler_schedule_def Let_def smart_loop_length)

subsection \<open>The sort of the candidates\<close>

lemma mset_sort_insert: "mset (sort_insert cmp x ys) = add_mset x (mset ys)"
  by (induction ys) simp_all

lemma mset_array_sort: "mset (array_sort cmp xs) = mset xs"
  by (induction xs) (simp_all add: mset_sort_insert)

lemma set_sort_insert: "set (sort_insert cmp x ys) = insert x (set ys)"
  using mset_sort_insert [of cmp x ys, THEN arg_cong [where f = set_mset]] by simp

lemma set_array_sort: "set (array_sort cmp xs) = set xs"
  using mset_array_sort [of cmp xs, THEN arg_cong [where f = set_mset]] by simp

lemma sorted_wrt_sort_insert:
  assumes le: "\<And>a b. a \<in> S \<Longrightarrow> b \<in> S \<Longrightarrow> cmp a b \<le> 0 \<Longrightarrow> R a b"
    and gt: "\<And>a b. a \<in> S \<Longrightarrow> b \<in> S \<Longrightarrow> \<not> cmp a b \<le> 0 \<Longrightarrow> R b a"
    and tr: "\<And>a b c. a \<in> S \<Longrightarrow> b \<in> S \<Longrightarrow> c \<in> S \<Longrightarrow> R a b \<Longrightarrow> R b c \<Longrightarrow> R a c"
  shows "x \<in> S \<Longrightarrow> set ys \<subseteq> S \<Longrightarrow> sorted_wrt R ys \<Longrightarrow> sorted_wrt R (sort_insert cmp x ys)"
proof (induction ys)
  case Nil
  then show ?case by simp
next
  case (Cons y ys)
  from Cons.prems have y: "y \<in> S" and ys: "set ys \<subseteq> S"
    and yr: "\<forall>z\<in>set ys. R y z" and sr: "sorted_wrt R ys" by simp_all
  show ?case
  proof (cases "cmp x y \<le> 0")
    case True
    have xy: "R x y" using le [OF Cons.prems(1) y True] .
    have "\<forall>z\<in>set ys. R x z"
    proof
      fix z assume z: "z \<in> set ys"
      with ys have "z \<in> S" by blast
      from tr [OF Cons.prems(1) y this xy] yr z show "R x z" by blast
    qed
    with True xy Cons.prems(3) show ?thesis by simp
  next
    case False
    have yx: "R y x" using gt [OF Cons.prems(1) y False] .
    have "sorted_wrt R (sort_insert cmp x ys)"
      using Cons.IH [OF Cons.prems(1) ys sr] .
    with False yx yr show ?thesis by (simp add: set_sort_insert)
  qed
qed

lemma sorted_wrt_array_sort:
  assumes le: "\<And>a b. a \<in> S \<Longrightarrow> b \<in> S \<Longrightarrow> cmp a b \<le> 0 \<Longrightarrow> R a b"
    and gt: "\<And>a b. a \<in> S \<Longrightarrow> b \<in> S \<Longrightarrow> \<not> cmp a b \<le> 0 \<Longrightarrow> R b a"
    and tr: "\<And>a b c. a \<in> S \<Longrightarrow> b \<in> S \<Longrightarrow> c \<in> S \<Longrightarrow> R a b \<Longrightarrow> R b c \<Longrightarrow> R a c"
  shows "set xs \<subseteq> S \<Longrightarrow> sorted_wrt R (array_sort cmp xs)"
proof (induction xs)
  case Nil
  then show ?case by simp
next
  case (Cons x xs)
  then have "x \<in> S" and "set (array_sort cmp xs) \<subseteq> S" and "sorted_wrt R (array_sort cmp xs)"
    by (simp_all add: set_array_sort)
  then show ?case
    using sorted_wrt_sort_insert [of S cmp R x "array_sort cmp xs", OF le gt tr] by simp
qed

lemma pMap_inj: "(pMap p = pMap q) = (p = q)"
  by (cases p; cases q) (simp_all add: pMap_def)

subsection \<open>The rounding error of the urgency score\<close>

lemma hours_needed_error:
  assumes "\<bar>r\<bar> \<le> 1000000"
  shows "\<bar>fdiv r 60 - r / 60\<bar> \<le> 2 / 100000000000" and "\<bar>r / 60\<bar> \<le> 16667"
proof -
  show b: "\<bar>r / 60\<bar> \<le> 16667" using assms by simp
  have "\<bar>fl (r / 60) - r / 60\<bar> \<le> \<bar>r / 60\<bar> / 10 ^ 15 + 1 / 10 ^ 300"
    by (rule fl_error_dec)
  also have "\<dots> \<le> 16667 / 10 ^ 15 + 1 / 10 ^ 300"
    using b by (simp add: divide_right_mono)
  also have "\<dots> \<le> 2 / 100000000000" by simp
  finally show "\<bar>fdiv r 60 - r / 60\<bar> \<le> 2 / 100000000000" by (simp add: fdiv_def)
qed

lemma hours_until_error:
  assumes "1 / 1000 \<le> x"
  shows "\<bar>fl x - x\<bar> \<le> x * (2 / 1000000000000000)" and "x * (999 / 1000) \<le> fl x"
proof -
  have x: "0 < x" using assms by linarith
  have "(1::real) / 10 ^ 300 \<le> (1 / 1000) / 10 ^ 15" by simp
  also have "\<dots> \<le> x / 10 ^ 15" using assms by (intro divide_right_mono) simp_all
  finally have t: "1 / 10 ^ 300 \<le> x / 10 ^ 15" .
  have "\<bar>fl x - x\<bar> \<le> \<bar>x\<bar> / 10 ^ 15 + 1 / 10 ^ 300" by (rule fl_error_dec)
  with t x show e: "\<bar>fl x - x\<bar> \<le> x * (2 / 1000000000000000)" by simp
  have "x * (2 / 1000000000000000) \<le> x * (1 / 1000)" using x by (intro mult_left_mono) simp_all
  with e show "x * (999 / 1000) \<le> fl x" by linarith
qed

lemma quotient_error:
  fixes hu hn a b :: real
  assumes hu: "1 / 1000 \<le> hu" and hn: "\<bar>hn\<bar> \<le> 16667"
    and a: "\<bar>a - hn\<bar> \<le> 2 / 100000000000" and b: "\<bar>b - hu\<bar> \<le> hu * (2 / 1000000000000000)"
    and b': "hu * (999 / 1000) \<le> b"
  shows "\<bar>a / b - hn / hu\<bar> \<le> 6 / 100000000"
proof -
  have hu0: "0 < hu" using hu by linarith
  have "0 < hu * (999 / 1000)" using hu0 by simp
  with b' have b0: "0 < b" by linarith
  have "(a - hn) * hu - hn * (b - hu) = a * hu - hn * b" by (simp add: algebra_simps)
  then have "\<bar>a * hu - hn * b\<bar> \<le> \<bar>(a - hn) * hu\<bar> + \<bar>hn * (b - hu)\<bar>"
    using abs_triangle_ineq4 [of "(a - hn) * hu" "hn * (b - hu)"] by simp
  also have "\<bar>(a - hn) * hu\<bar> = \<bar>a - hn\<bar> * hu" using hu0 by (simp add: abs_mult)
  also have "\<bar>hn * (b - hu)\<bar> = \<bar>hn\<bar> * \<bar>b - hu\<bar>" by (simp add: abs_mult)
  also have "\<bar>a - hn\<bar> * hu + \<bar>hn\<bar> * \<bar>b - hu\<bar>
      \<le> (2 / 100000000000) * hu + 16667 * (hu * (2 / 1000000000000000))"
    using a hn b hu0 by (intro add_mono mult_right_mono mult_mono) simp_all
  also have "\<dots> = hu * (53334 / 1000000000000000)" by (simp add: algebra_simps)
  finally have num: "\<bar>a * hu - hn * b\<bar> \<le> hu * (53334 / 1000000000000000)" .
  have "hu * (53334 / 1000000000000000) \<le> hu * ((6 / 100000000) * (999 / 1000000))"
    using hu0 by (intro mult_left_mono) simp_all
  also have "\<dots> = (6 / 100000000) * (hu * (999 / 1000) * (1 / 1000))" by simp
  also have "\<dots> \<le> (6 / 100000000) * (b * hu)"
    using b' hu hu0 b0 by (intro mult_left_mono mult_mono) simp_all
  finally have "\<bar>a * hu - hn * b\<bar> \<le> (6 / 100000000) * (b * hu)" using num by linarith
  moreover have "a / b - hn / hu = (a * hu - hn * b) / (b * hu)"
    using hu0 b0 by (simp add: field_simps)
  moreover have "0 < b * hu" using hu0 b0 by simp
  ultimately show ?thesis by (simp add: abs_divide field_simps)
qed

lemma urgency_error:
  assumes "1 / 1000 \<le> d - h" and "\<bar>r\<bar> \<le> 1000000"
  shows "\<bar>fdiv (fdiv r 60) (fsub d h) - (r / 60) / (d - h)\<bar> \<le> 1 / 10000000"
    and "\<bar>(r / 60) / (d - h)\<bar> \<le> 16667000"
    and "0 < fsub d h"
proof -
  have hu0: "0 < d - h" using assms(1) by linarith
  note hn = hours_needed_error [OF assms(2)]
  note hu = hours_until_error [OF assms(1)]
  have "0 < (d - h) * (999 / 1000)" using hu0 by simp
  with hu(2) show pos: "0 < fsub d h" unfolding fsub_def by linarith
  have "\<bar>(r / 60) / (d - h)\<bar> = \<bar>r / 60\<bar> / (d - h)" using hu0 by (simp add: abs_divide)
  also have "\<dots> \<le> 16667 / (d - h)" using hn(2) hu0 by (intro divide_right_mono) simp_all
  also have "\<dots> \<le> 16667 / (1 / 1000)" using assms(1) by (intro divide_left_mono) simp_all
  finally show u: "\<bar>(r / 60) / (d - h)\<bar> \<le> 16667000" by simp
  have q: "\<bar>fdiv r 60 / fsub d h - (r / 60) / (d - h)\<bar> \<le> 6 / 100000000"
    unfolding fsub_def using assms(1) hn(2) hn(1) hu by (rule quotient_error)
  then have "\<bar>fdiv r 60 / fsub d h\<bar> \<le> 16667001" using u by linarith
  then have "\<bar>fdiv r 60 / fsub d h\<bar> / 10 ^ 15 + 1 / 10 ^ 300 \<le> 16667001 / 10 ^ 15 + 1 / 10 ^ 300"
    by (simp add: divide_right_mono)
  also have "\<dots> \<le> 2 / 100000000" by simp
  finally have "\<bar>fl (fdiv r 60 / fsub d h) - fdiv r 60 / fsub d h\<bar> \<le> 2 / 100000000"
    using fl_error_dec [of "fdiv r 60 / fsub d h"] by linarith
  with q have "\<bar>fl (fdiv r 60 / fsub d h) - (r / 60) / (d - h)\<bar> \<le> 1 / 10000000"
    by linarith
  then show "\<bar>fdiv (fdiv r 60) (fsub d h) - (r / 60) / (d - h)\<bar> \<le> 1 / 10000000"
    by (simp only: fdiv_def [of "fdiv r 60"])
qed

lemma urgencyScore_fl_error:
  assumes "well_scaled h j"
  shows "\<bar>urgencyScore_fl h j - urgencyScore h j\<bar> \<le> 1 / 10000000"
    and "\<bar>urgencyScore h j\<bar> \<le> 16667000"
proof -
  have "\<bar>urgencyScore_fl h j - urgencyScore h j\<bar> \<le> 1 / 10000000
        \<and> \<bar>urgencyScore h j\<bar> \<le> 16667000"
  proof (cases "deadline j")
    case None
    then show ?thesis by (simp add: urgencyScore_fl_def urgencyScore_def)
  next
    case (Some d)
    show ?thesis
    proof (cases "d - h \<le> 0")
      case True
      then have "fsub d h \<le> 0" unfolding fsub_def by (rule fl_nonpos)
      with True Some show ?thesis by (simp add: urgencyScore_fl_def urgencyScore_def)
    next
      case False
      with assms Some have s: "1 / 1000 \<le> d - h" "\<bar>remaining j\<bar> \<le> 1000000"
        by (simp_all add: well_scaled_def)
      from urgency_error [OF s] False Some show ?thesis
        by (simp add: urgencyScore_fl_def urgencyScore_def Let_def)
    qed
  qed
  then show "\<bar>urgencyScore_fl h j - urgencyScore h j\<bar> \<le> 1 / 10000000"
    and "\<bar>urgencyScore h j\<bar> \<le> 16667000" by simp_all
qed

lemma tenth_bounds: "1 / 10 \<le> tenth" "tenth \<le> 1 / 10 + 1 / 10000000"
  by (simp_all add: tenth_def)

lemma urgency_difference_error:
  assumes "well_scaled h a" and "well_scaled h b"
  shows "\<bar>fsub (urgencyScore_fl h a) (urgencyScore_fl h b)
          - (urgencyScore h a - urgencyScore h b)\<bar> \<le> 3 / 10000000"
proof -
  note ea = urgencyScore_fl_error [OF assms(1)]
  note eb = urgencyScore_fl_error [OF assms(2)]
  define x where "x = urgencyScore_fl h a - urgencyScore_fl h b"
  have d: "\<bar>x - (urgencyScore h a - urgencyScore h b)\<bar> \<le> 2 / 10000000"
    unfolding x_def using ea(1) eb(1) by linarith
  then have "\<bar>x\<bar> \<le> 33334001" using ea(2) eb(2) by linarith
  then have "\<bar>x\<bar> / 10 ^ 15 + 1 / 10 ^ 300 \<le> 33334001 / 10 ^ 15 + 1 / 10 ^ 300"
    by (simp add: divide_right_mono)
  also have "\<dots> \<le> 1 / 10000000" by simp
  finally have "\<bar>fl x - x\<bar> \<le> 1 / 10000000" using fl_error_dec [of x] by linarith
  with d have "\<bar>fl x - (urgencyScore h a - urgencyScore h b)\<bar> \<le> 3 / 10000000"
    by linarith
  then show ?thesis by (simp add: fsub_def x_def)
qed

subsection \<open>The comparator and the claimed order\<close>

lemma claimed_before_total: "\<not> claimed_before h a b \<Longrightarrow> claimed_before h b a"
  by (auto simp: claimed_before_def abs_minus_commute [of "urgencyScore h b"]
      split: if_splits)

lemma compareJobs_class: "compareJobs h a b \<le> 0 \<Longrightarrow> pMap (priority a) \<le> pMap (priority b)"
  by (auto simp: compareJobs_def Let_def split: if_splits)

lemma compareJobs_class_gt: "\<not> compareJobs h a b \<le> 0 \<Longrightarrow> pMap (priority b) \<le> pMap (priority a)"
  by (auto simp: compareJobs_def Let_def split: if_splits)

text \<open>
  For two well-scaled jobs whose urgency scores are not at the tolerance, the comparator
  in binary64 decides as the claimed order over the reals does.
\<close>

lemma compareJobs_claimed:
  assumes wa: "well_scaled h a" and wb: "well_scaled h b"
    and clr: "priority a = priority b \<longrightarrow>
        \<bar>urgencyScore h a - urgencyScore h b\<bar> \<le> 1 / 10 - 1 / 1000000
        \<or> 1 / 10 + 1 / 1000000 \<le> \<bar>urgencyScore h a - urgencyScore h b\<bar>"
  shows "(compareJobs h a b \<le> 0) = claimed_before h a b"
proof (cases "pMap (priority a) = pMap (priority b)")
  case False
  then show ?thesis by (auto simp: compareJobs_def claimed_before_def)
next
  case True
  then have same: "priority a = priority b" by (simp only: pMap_inj)
  define D where "D = fsub (urgencyScore_fl h a) (urgencyScore_fl h b)"
  define E where "E = fsub (urgencyScore_fl h b) (urgencyScore_fl h a)"
  have d: "\<bar>D - (urgencyScore h a - urgencyScore h b)\<bar> \<le> 3 / 10000000"
    unfolding D_def using wa wb by (rule urgency_difference_error)
  have e: "\<bar>E - (urgencyScore h b - urgencyScore h a)\<bar> \<le> 3 / 10000000"
    unfolding E_def using wb wa by (rule urgency_difference_error)
  have cmp: "compareJobs h a b = (if \<bar>D\<bar> > tenth then E else fsub (powerKw a) (powerKw b))"
    using True by (simp add: compareJobs_def Let_def D_def E_def)
  from clr same consider
      (close) "\<bar>urgencyScore h a - urgencyScore h b\<bar> \<le> 1 / 10 - 1 / 1000000"
    | (far) "1 / 10 + 1 / 1000000 \<le> \<bar>urgencyScore h a - urgencyScore h b\<bar>"
    by blast
  then show ?thesis
  proof cases
    case close
    with d tenth_bounds(1) have "\<not> \<bar>D\<bar> > tenth" by linarith
    then have "compareJobs h a b = fsub (powerKw a) (powerKw b)" by (simp add: cmp)
    moreover have "(fsub (powerKw a) (powerKw b) \<le> 0) = (powerKw a \<le> powerKw b)"
      unfolding fsub_def using wa wb by (intro fsub_sign) (simp_all add: well_scaled_def)
    moreover have "claimed_before h a b = (powerKw a \<le> powerKw b)"
      using close True by (simp add: claimed_before_def)
    ultimately show ?thesis by simp
  next
    case far
    with d tenth_bounds(2) have "\<bar>D\<bar> > tenth" by linarith
    then have "compareJobs h a b = E" by (simp add: cmp)
    moreover have "(E \<le> 0) = (urgencyScore h a > urgencyScore h b)"
      using far e by linarith
    moreover have "claimed_before h a b = (urgencyScore h a > urgencyScore h b)"
      using far True by (simp add: claimed_before_def)
    ultimately show ?thesis by simp
  qed
qed

lemma claimed_before_trans:
  assumes tt: "tolerance_transitive h js"
    and "a \<in> set js" and "b \<in> set js" and "c \<in> set js"
    and ab: "claimed_before h a b" and bc: "claimed_before h b c"
  shows "claimed_before h a c"
proof (cases "priority a = priority b \<and> priority b = priority c")
  case False
  with ab bc show ?thesis
    by (auto simp: claimed_before_def pMap_inj split: if_splits)
next
  case True
  have t1: "\<bar>urgencyScore h a - urgencyScore h b\<bar> \<le> 1 / 10 \<Longrightarrow>
            \<bar>urgencyScore h b - urgencyScore h c\<bar> \<le> 1 / 10 \<Longrightarrow>
            \<bar>urgencyScore h a - urgencyScore h c\<bar> \<le> 1 / 10"
    using tt assms(2-4) True unfolding tolerance_transitive_def by blast
  have t2: "\<bar>urgencyScore h a - urgencyScore h c\<bar> \<le> 1 / 10 \<Longrightarrow>
            \<bar>urgencyScore h c - urgencyScore h b\<bar> \<le> 1 / 10 \<Longrightarrow>
            \<bar>urgencyScore h a - urgencyScore h b\<bar> \<le> 1 / 10"
    using tt assms(2-4) True unfolding tolerance_transitive_def by metis
  have t3: "\<bar>urgencyScore h b - urgencyScore h a\<bar> \<le> 1 / 10 \<Longrightarrow>
            \<bar>urgencyScore h a - urgencyScore h c\<bar> \<le> 1 / 10 \<Longrightarrow>
            \<bar>urgencyScore h b - urgencyScore h c\<bar> \<le> 1 / 10"
    using tt assms(2-4) True unfolding tolerance_transitive_def by metis
  show ?thesis
  proof (cases "\<bar>urgencyScore h a - urgencyScore h b\<bar> \<le> 1 / 10")
    case ab_close: True
    show ?thesis
    proof (cases "\<bar>urgencyScore h b - urgencyScore h c\<bar> \<le> 1 / 10")
      case bc_close: True
      with ab_close t1 ab bc True show ?thesis
        by (simp add: claimed_before_def)
    next
      case bc_far: False
      have "\<not> \<bar>urgencyScore h a - urgencyScore h c\<bar> \<le> 1 / 10"
      proof
        assume ac: "\<bar>urgencyScore h a - urgencyScore h c\<bar> \<le> 1 / 10"
        from ab_close have "\<bar>urgencyScore h b - urgencyScore h a\<bar> \<le> 1 / 10"
          by (simp only: abs_minus_commute)
        from t3 [OF this ac] bc_far show False by contradiction
      qed
      with ab_close bc_far ab bc True show ?thesis
        by (simp add: claimed_before_def abs_real_def split: if_splits)
    qed
  next
    case ab_far: False
    show ?thesis
    proof (cases "\<bar>urgencyScore h b - urgencyScore h c\<bar> \<le> 1 / 10")
      case bc_close: True
      have "\<not> \<bar>urgencyScore h a - urgencyScore h c\<bar> \<le> 1 / 10"
      proof
        assume ac: "\<bar>urgencyScore h a - urgencyScore h c\<bar> \<le> 1 / 10"
        from bc_close have "\<bar>urgencyScore h c - urgencyScore h b\<bar> \<le> 1 / 10"
          by (simp only: abs_minus_commute)
        from t2 [OF ac this] ab_far show False by contradiction
      qed
      with ab_far bc_close ab bc True show ?thesis
        by (simp add: claimed_before_def abs_real_def split: if_splits)
    next
      case bc_far: False
      with ab_far ab bc True show ?thesis
        by (simp add: claimed_before_def abs_real_def split: if_splits)
    qed
  qed
qed

text \<open>
  Claim C8, as the code has it. The sorted candidates are a permutation of the
  candidates; no job of a later priority class stands before a job of an earlier class
  (critical, high, medium, low); and when the candidates are well scaled, the urgency
  scores of two candidates of one class are never at the tolerance, and being within the
  tolerance 0.1 is transitive among the candidates of each class, every pair of sorted
  candidates follows the claimed order: class first, then the higher urgency score when
  the scores differ by more than 0.1, else the smaller \<open>powerKw\<close>.
\<close>

theorem prioritizeJobs_order:
  "mset (prioritizeJobs store refs h s) = mset refs
   \<and> sorted_wrt (\<lambda>a b. pMap (priority a) \<le> pMap (priority b))
        (map (nth store) (prioritizeJobs store refs h s))
   \<and> (list_all (well_scaled h) (map (nth store) refs)
      \<and> clear_of_tolerance h (map (nth store) refs)
      \<and> tolerance_transitive h (map (nth store) refs) \<longrightarrow>
        sorted_wrt (claimed_before h) (map (nth store) (prioritizeJobs store refs h s)))"
proof -
  let ?cmp = "\<lambda>a b. compareJobs h (store ! a) (store ! b)"
  have perm: "mset (prioritizeJobs store refs h s) = mset refs"
    by (simp add: prioritizeJobs_def mset_array_sort)
  have "sorted_wrt (\<lambda>a b. pMap (priority (store ! a)) \<le> pMap (priority (store ! b)))
          (array_sort ?cmp refs)"
  proof (rule sorted_wrt_array_sort [where S = "set refs"])
    show "set refs \<subseteq> set refs" by simp
  qed (auto dest: compareJobs_class compareJobs_class_gt)
  then have cls: "sorted_wrt (\<lambda>a b. pMap (priority a) \<le> pMap (priority b))
        (map (nth store) (prioritizeJobs store refs h s))"
    by (simp add: prioritizeJobs_def sorted_wrt_map)
  have full: "sorted_wrt (claimed_before h) (map (nth store) (prioritizeJobs store refs h s))"
    if hyp: "list_all (well_scaled h) (map (nth store) refs)
      \<and> clear_of_tolerance h (map (nth store) refs)
      \<and> tolerance_transitive h (map (nth store) refs)"
  proof -
    from hyp have ws: "\<And>a. a \<in> set refs \<Longrightarrow> well_scaled h (store ! a)"
      by (simp add: list_all_iff)
    from hyp have clr: "\<And>a b. a \<in> set refs \<Longrightarrow> b \<in> set refs \<Longrightarrow>
        priority (store ! a) = priority (store ! b) \<longrightarrow>
        \<bar>urgencyScore h (store ! a) - urgencyScore h (store ! b)\<bar> \<le> 1 / 10 - 1 / 1000000
        \<or> 1 / 10 + 1 / 1000000 \<le> \<bar>urgencyScore h (store ! a) - urgencyScore h (store ! b)\<bar>"
      unfolding clear_of_tolerance_def by simp
    from hyp have tt: "tolerance_transitive h (map (nth store) refs)" by blast
    have eq: "(compareJobs h (store ! a) (store ! b) \<le> 0) = claimed_before h (store ! a) (store ! b)"
      if "a \<in> set refs" "b \<in> set refs" for a b
      using ws [OF that(1)] ws [OF that(2)] clr [OF that] by (rule compareJobs_claimed)
    have "sorted_wrt (\<lambda>a b. claimed_before h (store ! a) (store ! b)) (array_sort ?cmp refs)"
    proof (rule sorted_wrt_array_sort [where S = "set refs"])
      fix a b assume "a \<in> set refs" "b \<in> set refs"
        and "compareJobs h (store ! a) (store ! b) \<le> 0"
      then show "claimed_before h (store ! a) (store ! b)" by (simp add: eq)
    next
      fix a b assume "a \<in> set refs" "b \<in> set refs"
        and "\<not> compareJobs h (store ! a) (store ! b) \<le> 0"
      then have "\<not> claimed_before h (store ! a) (store ! b)" by (simp add: eq)
      then show "claimed_before h (store ! b) (store ! a)" by (rule claimed_before_total)
    next
      fix a b c
      assume "a \<in> set refs" "b \<in> set refs" "c \<in> set refs"
        and ab: "claimed_before h (store ! a) (store ! b)"
        and bc: "claimed_before h (store ! b) (store ! c)"
      then have "store ! a \<in> set (map (nth store) refs)" "store ! b \<in> set (map (nth store) refs)"
        "store ! c \<in> set (map (nth store) refs)" by simp_all
      from claimed_before_trans [OF tt this ab bc]
      show "claimed_before h (store ! a) (store ! c)" .
    next
      show "set refs \<subseteq> set refs" by simp
    qed
    then show ?thesis by (simp add: prioritizeJobs_def sorted_wrt_map)
  qed
  from perm cls full show ?thesis by blast
qed

subsection \<open>Examples of the sort\<close>

lemma jobs_mixed_nth:
  "jobs_mixed ! 0 = new_Job ''ev'' 7 210 ''low'' (Some 18) True"
  "jobs_mixed ! Suc 0 = new_Job ''ac'' 3 240 ''high'' (Some 18) True"
  "jobs_mixed ! 2 = new_Job ''fan'' 1 240 ''high'' (Some 18) True"
  "jobs_mixed ! 3 = new_Job ''light'' 5 360 ''critical'' (Some 18) False"
  "jobs_mixed ! 4 = new_Job ''lamp'' 2 60 ''high'' (Some 18) True"
  by (simp_all add: jobs_mixed_def)

lemma mixed_fields:
  "priority (jobs_mixed ! 0) = Low" "priority (jobs_mixed ! Suc 0) = High"
  "priority (jobs_mixed ! 2) = High" "priority (jobs_mixed ! 3) = Critical"
  "priority (jobs_mixed ! 4) = High"
  "urgencyScore 0 (jobs_mixed ! 0) = 7 / 36" "urgencyScore 0 (jobs_mixed ! Suc 0) = 2 / 9"
  "urgencyScore 0 (jobs_mixed ! 2) = 2 / 9" "urgencyScore 0 (jobs_mixed ! 3) = 1 / 3"
  "urgencyScore 0 (jobs_mixed ! 4) = 1 / 18"
  "powerKw (jobs_mixed ! 0) = 7" "powerKw (jobs_mixed ! Suc 0) = 3"
  "powerKw (jobs_mixed ! 2) = 1" "powerKw (jobs_mixed ! 3) = 5"
  "powerKw (jobs_mixed ! 4) = 2"
  by (simp_all add: jobs_mixed_nth new_Job_def np np_low np_critical urgencyScore_def)

lemma claimed_mixed:
  "\<not> claimed_before 0 (jobs_mixed ! 0) (jobs_mixed ! Suc 0)"
  "\<not> claimed_before 0 (jobs_mixed ! 0) (jobs_mixed ! 2)"
  "\<not> claimed_before 0 (jobs_mixed ! 0) (jobs_mixed ! 3)"
  "\<not> claimed_before 0 (jobs_mixed ! 0) (jobs_mixed ! 4)"
  "claimed_before 0 (jobs_mixed ! Suc 0) (jobs_mixed ! 0)"
  "\<not> claimed_before 0 (jobs_mixed ! Suc 0) (jobs_mixed ! 2)"
  "\<not> claimed_before 0 (jobs_mixed ! Suc 0) (jobs_mixed ! 3)"
  "claimed_before 0 (jobs_mixed ! Suc 0) (jobs_mixed ! 4)"
  "claimed_before 0 (jobs_mixed ! 2) (jobs_mixed ! 0)"
  "claimed_before 0 (jobs_mixed ! 2) (jobs_mixed ! Suc 0)"
  "\<not> claimed_before 0 (jobs_mixed ! 2) (jobs_mixed ! 3)"
  "claimed_before 0 (jobs_mixed ! 2) (jobs_mixed ! 4)"
  "claimed_before 0 (jobs_mixed ! 3) (jobs_mixed ! 0)"
  "claimed_before 0 (jobs_mixed ! 3) (jobs_mixed ! Suc 0)"
  "claimed_before 0 (jobs_mixed ! 3) (jobs_mixed ! 2)"
  "claimed_before 0 (jobs_mixed ! 3) (jobs_mixed ! 4)"
  "claimed_before 0 (jobs_mixed ! 4) (jobs_mixed ! 0)"
  "\<not> claimed_before 0 (jobs_mixed ! 4) (jobs_mixed ! Suc 0)"
  "\<not> claimed_before 0 (jobs_mixed ! 4) (jobs_mixed ! 2)"
  "\<not> claimed_before 0 (jobs_mixed ! 4) (jobs_mixed ! 3)"
  by (simp_all add: claimed_before_def mixed_fields pMap_def)

lemma map_nth_mixed: "map (nth jobs_mixed) [0, 1, 2, 3, 4] = jobs_mixed"
  by (simp add: jobs_mixed_def)

lemma well_scaled_mixed: "list_all (well_scaled 0) jobs_mixed"
  by (simp add: jobs_mixed_def well_scaled_def new_Job_def fl_numeral fl_1)

lemma clear_of_tolerance_mixed: "clear_of_tolerance 0 jobs_mixed"
  unfolding clear_of_tolerance_def
  by (simp add: jobs_mixed_def new_Job_def np np_low np_critical urgencyScore_def)

lemma tolerance_transitive_mixed: "tolerance_transitive 0 jobs_mixed"
  unfolding tolerance_transitive_def
  by (simp add: jobs_mixed_def new_Job_def np np_low np_critical urgencyScore_def)

lemma compare_mixed:
  assumes "i < 5" and "j < 5"
  shows "(compareJobs 0 (jobs_mixed ! i) (jobs_mixed ! j) \<le> 0)
           = claimed_before 0 (jobs_mixed ! i) (jobs_mixed ! j)"
proof -
  have len: "length jobs_mixed = 5" by (simp add: jobs_mixed_def)
  with assms have m: "jobs_mixed ! i \<in> set jobs_mixed" "jobs_mixed ! j \<in> set jobs_mixed"
    by simp_all
  then have "well_scaled 0 (jobs_mixed ! i)" "well_scaled 0 (jobs_mixed ! j)"
    using well_scaled_mixed by (simp_all add: list_all_iff)
  moreover have "priority (jobs_mixed ! i) = priority (jobs_mixed ! j) \<longrightarrow>
        \<bar>urgencyScore 0 (jobs_mixed ! i) - urgencyScore 0 (jobs_mixed ! j)\<bar> \<le> 1 / 10 - 1 / 1000000
        \<or> 1 / 10 + 1 / 1000000 \<le> \<bar>urgencyScore 0 (jobs_mixed ! i) - urgencyScore 0 (jobs_mixed ! j)\<bar>"
    using clear_of_tolerance_mixed m unfolding clear_of_tolerance_def by blast
  ultimately show ?thesis by (rule compareJobs_claimed)
qed

lemma prioritizeJobs_mixed: "prioritizeJobs jobs_mixed [0, 1, 2, 3, 4] 0 5 = [3, 2, 1, 4, 0]"
  by (simp add: prioritizeJobs_def compare_mixed claimed_mixed)

text \<open>
  Five candidates of three classes. The critical job comes first and the low job last;
  of the three high jobs, the two with the urgency score \<open>2/9\<close> come before the one with
  the score \<open>1/18\<close>, which has less power than one of them, and among the two the one
  with the smaller power comes first.
\<close>

theorem prioritizeJobs_order_witness:
  "list_all (well_scaled 0) (map (nth jobs_mixed) [0, 1, 2, 3, 4])
   \<and> clear_of_tolerance 0 (map (nth jobs_mixed) [0, 1, 2, 3, 4])
   \<and> tolerance_transitive 0 (map (nth jobs_mixed) [0, 1, 2, 3, 4])
   \<and> prioritizeJobs jobs_mixed [0, 1, 2, 3, 4] 0 5 = [3, 2, 1, 4, 0]
   \<and> sorted_wrt (claimed_before 0) (map (nth jobs_mixed) [3, 2, 1, 4, 0])
   \<and> \<bar>urgencyScore 0 (jobs_mixed ! 2) - urgencyScore 0 (jobs_mixed ! 4)\<bar> > 1 / 10
   \<and> powerKw (jobs_mixed ! 4) < powerKw (jobs_mixed ! 1)"
proof -
  have hyp: "list_all (well_scaled 0) (map (nth jobs_mixed) [0, 1, 2, 3, 4])
      \<and> clear_of_tolerance 0 (map (nth jobs_mixed) [0, 1, 2, 3, 4])
      \<and> tolerance_transitive 0 (map (nth jobs_mixed) [0, 1, 2, 3, 4])"
    unfolding map_nth_mixed
    using well_scaled_mixed clear_of_tolerance_mixed tolerance_transitive_mixed by blast
  with prioritizeJobs_order [of jobs_mixed "[0, 1, 2, 3, 4]" 0 5]
  have "sorted_wrt (claimed_before 0)
          (map (nth jobs_mixed) (prioritizeJobs jobs_mixed [0, 1, 2, 3, 4] 0 5))"
    by blast
  then have "sorted_wrt (claimed_before 0) (map (nth jobs_mixed) [3, 2, 1, 4, 0])"
    unfolding prioritizeJobs_mixed .
  moreover have "\<bar>urgencyScore 0 (jobs_mixed ! 2) - urgencyScore 0 (jobs_mixed ! 4)\<bar> > 1 / 10"
    "powerKw (jobs_mixed ! 4) < powerKw (jobs_mixed ! 1)"
    by (simp_all add: mixed_fields)
  ultimately show ?thesis using hyp prioritizeJobs_mixed by blast
qed

lemma jobs_cycle_nth:
  "jobs_cycle ! 0 = new_Job ''a'' 1 60 ''high'' (Some 18) True"
  "jobs_cycle ! Suc 0 = new_Job ''b'' 2 150 ''high'' (Some 18) True"
  "jobs_cycle ! 2 = new_Job ''c'' 3 240 ''high'' (Some 18) True"
  by (simp_all add: jobs_cycle_def)

lemma claimed_cycle:
  "claimed_before 0 (jobs_cycle ! 0) (jobs_cycle ! Suc 0)"
  "\<not> claimed_before 0 (jobs_cycle ! 0) (jobs_cycle ! 2)"
  "\<not> claimed_before 0 (jobs_cycle ! Suc 0) (jobs_cycle ! 0)"
  "claimed_before 0 (jobs_cycle ! Suc 0) (jobs_cycle ! 2)"
  "claimed_before 0 (jobs_cycle ! 2) (jobs_cycle ! 0)"
  "\<not> claimed_before 0 (jobs_cycle ! 2) (jobs_cycle ! Suc 0)"
  by (simp_all add: jobs_cycle_nth claimed_before_def new_Job_def np urgencyScore_def)

lemma waiting_refs_cycle: "waiting_refs jobs_cycle = [0, 1, 2]"
  by (simp add: waiting_refs_def jobs_cycle_def new_Job_def upt_rec)

lemma well_scaled_cycle: "list_all (well_scaled 0) jobs_cycle"
  by (simp add: jobs_cycle_def well_scaled_def new_Job_def fl_numeral fl_1)

lemma clear_of_tolerance_cycle: "clear_of_tolerance 0 jobs_cycle"
  unfolding clear_of_tolerance_def
  by (simp add: jobs_cycle_def new_Job_def np urgencyScore_def)

lemma compare_cycle:
  assumes "i < 3" and "j < 3"
  shows "(compareJobs 0 (jobs_cycle ! i) (jobs_cycle ! j) \<le> 0)
           = claimed_before 0 (jobs_cycle ! i) (jobs_cycle ! j)"
proof -
  have len: "length jobs_cycle = 3" by (simp add: jobs_cycle_def)
  with assms have m: "jobs_cycle ! i \<in> set jobs_cycle" "jobs_cycle ! j \<in> set jobs_cycle"
    by simp_all
  then have "well_scaled 0 (jobs_cycle ! i)" "well_scaled 0 (jobs_cycle ! j)"
    using well_scaled_cycle by (simp_all add: list_all_iff)
  moreover have "priority (jobs_cycle ! i) = priority (jobs_cycle ! j) \<longrightarrow>
        \<bar>urgencyScore 0 (jobs_cycle ! i) - urgencyScore 0 (jobs_cycle ! j)\<bar> \<le> 1 / 10 - 1 / 1000000
        \<or> 1 / 10 + 1 / 1000000 \<le> \<bar>urgencyScore 0 (jobs_cycle ! i) - urgencyScore 0 (jobs_cycle ! j)\<bar>"
    using clear_of_tolerance_cycle m unfolding clear_of_tolerance_def by blast
  ultimately show ?thesis by (rule compareJobs_claimed)
qed

lemma prioritizeJobs_cycle: "prioritizeJobs jobs_cycle [0, 1, 2] 0 5 = [0, 1, 2]"
  by (simp add: prioritizeJobs_def compare_cycle claimed_cycle)

text \<open>
  Three waiting jobs of class high with urgency scores 1/18, 5/36 and 2/9 at hour 0 and
  powers 1, 2 and 3, well scaled and with no two scores at the tolerance: neighbours
  are within the tolerance, so that the smaller power goes first, but the first and the
  last differ by more than the tolerance, so that the last would have to go first. The
  sort returns them in the order of their powers.
\<close>

theorem prioritizeJobs_cycle_counterexample:
  "list_all (well_scaled 0) (map (nth jobs_cycle) (waiting_refs jobs_cycle))
   \<and> clear_of_tolerance 0 (map (nth jobs_cycle) (waiting_refs jobs_cycle))
   \<and> prioritizeJobs jobs_cycle (waiting_refs jobs_cycle) 0 5 = [0, 1, 2]
   \<and> \<not> sorted_wrt (claimed_before 0)
         (map (nth jobs_cycle) (prioritizeJobs jobs_cycle (waiting_refs jobs_cycle) 0 5))"
proof -
  have m: "map (nth jobs_cycle) [0, 1, 2] = jobs_cycle" by (simp add: jobs_cycle_def)
  have "\<not> sorted_wrt (claimed_before 0) (map (nth jobs_cycle) [0, 1, 2])"
    by (simp add: claimed_cycle)
  then show ?thesis
    unfolding waiting_refs_cycle prioritizeJobs_cycle
    using well_scaled_cycle clear_of_tolerance_cycle by (simp only: m) simp
qed

text \<open>No arrangement of the three jobs has the claimed order.\<close>

lemma no_claimed_order_of_cycle:
  "\<not> sorted_wrt (claimed_before 0) (map (nth jobs_cycle) [0, 1, 2])"
  "\<not> sorted_wrt (claimed_before 0) (map (nth jobs_cycle) [0, 2, 1])"
  "\<not> sorted_wrt (claimed_before 0) (map (nth jobs_cycle) [1, 0, 2])"
  "\<not> sorted_wrt (claimed_before 0) (map (nth jobs_cycle) [1, 2, 0])"
  "\<not> sorted_wrt (claimed_before 0) (map (nth jobs_cycle) [2, 0, 1])"
  "\<not> sorted_wrt (claimed_before 0) (map (nth jobs_cycle) [2, 1, 0])"
  by (simp_all add: claimed_cycle)

text \<open>
  The comparator decides on the binary64 values. For the two jobs of \<open>jobs_tolerance\<close>
  the urgency scores over the reals differ by the tolerance and not by more, so that
  the claimed order puts the job of the smaller power first; the binary64 scores differ
  by more than the literal \<open>0.1\<close>, and the sort puts the job of the higher score
  first. The condition \<open>clear_of_tolerance\<close> of the statement above excludes such pairs.
\<close>

lemma hours_needed_x: "fdiv 54 60 = 8106479329266893 / 9007199254740992"
  unfolding fdiv_def
  by (subst fl_at [where e = "- 1"]) (simp_all add: rhe_def powr_neg_numeral)

lemma hours_needed_y: "fdiv 162 60 = 3039929748475085 / 1125899906842624"
  unfolding fdiv_def
  by (subst fl_at [where e = "1"]) (simp_all add: rhe_def powr_neg_numeral)

lemma urgency_x: "fdiv (8106479329266893 / 9007199254740992) 18 = 3602879701896397 / 72057594037927936"
  unfolding fdiv_def
  by (subst fl_at [where e = "- 5"]) (simp_all add: rhe_def powr_neg_numeral)

lemma urgency_y: "fdiv (3039929748475085 / 1125899906842624) 18 = 1351079888211149 / 9007199254740992"
  unfolding fdiv_def
  by (subst fl_at [where e = "- 3"]) (simp_all add: rhe_def powr_neg_numeral)

lemma urgency_difference_yx:
  "fsub (1351079888211149 / 9007199254740992) (3602879701896397 / 72057594037927936)
     = 7205759403792795 / 72057594037927936"
  unfolding fsub_def
  by (subst fl_at [where e = "- 4"]) (simp_all add: rhe_def powr_neg_numeral)

lemma urgency_difference_xy:
  "fsub (3602879701896397 / 72057594037927936) (1351079888211149 / 9007199254740992)
     = - (7205759403792795 / 72057594037927936)"
proof -
  have "fl (- (1351079888211149 / 9007199254740992 - 3602879701896397 / 72057594037927936))
      = - fl (1351079888211149 / 9007199254740992 - 3602879701896397 / 72057594037927936)"
    by (rule fl_minus)
  then show ?thesis using urgency_difference_yx by (simp add: fsub_def)
qed

lemma urgencyScore_fl_tolerance:
  "urgencyScore_fl 0 (jobs_tolerance ! 0) = 3602879701896397 / 72057594037927936"
  "urgencyScore_fl 0 (jobs_tolerance ! Suc 0) = 1351079888211149 / 9007199254740992"
  by (simp_all add: jobs_tolerance_def new_Job_def urgencyScore_fl_def Let_def fsub_def
      fl_numeral hours_needed_x hours_needed_y urgency_x urgency_y)

lemma compareJobs_at_tolerance:
  "compareJobs 0 (jobs_tolerance ! 0) (jobs_tolerance ! Suc 0)
     = 7205759403792795 / 72057594037927936"
  unfolding compareJobs_def Let_def urgencyScore_fl_tolerance
    urgency_difference_xy urgency_difference_yx
  by (simp add: jobs_tolerance_def new_Job_def np tenth_def)

lemma prioritizeJobs_at_tolerance:
  "urgencyScore 0 (jobs_tolerance ! 1) - urgencyScore 0 (jobs_tolerance ! 0) = 1 / 10
   \<and> powerKw (jobs_tolerance ! 0) < powerKw (jobs_tolerance ! 1)
   \<and> claimed_before 0 (jobs_tolerance ! 0) (jobs_tolerance ! 1)
   \<and> \<not> claimed_before 0 (jobs_tolerance ! 1) (jobs_tolerance ! 0)
   \<and> prioritizeJobs jobs_tolerance [0, 1] 0 5 = [1, 0]"
proof -
  have "prioritizeJobs jobs_tolerance [0, 1] 0 5 = [1, 0]"
    by (simp add: prioritizeJobs_def compareJobs_at_tolerance)
  then show ?thesis
    by (simp add: jobs_tolerance_def new_Job_def np urgencyScore_def claimed_before_def)
qed

subsection \<open>The jobs that the simulation builds\<close>

text \<open>
  Claim C2, as the code has it. Every job that the simulation builds has the deadline
  18, whatever the job specification says; its duration in minutes is the duration of
  the specification times 60 when that is given and not 0, and 120 otherwise.
\<close>

theorem job_of_appliance_deadline_duration:
  "i < length apps \<Longrightarrow>
   deadline (scheduler_jobs (initial_sim apps) ! i) = Some 18
   \<and> (\<forall>d. app_duration (apps ! i) = Some d \<and> d \<noteq> 0 \<longrightarrow>
          duration (scheduler_jobs (initial_sim apps) ! i) = d * 60)
   \<and> (app_duration (apps ! i) = None \<or> app_duration (apps ! i) = Some 0 \<longrightarrow>
          duration (scheduler_jobs (initial_sim apps) ! i) = 120)"
  by (auto simp: initial_sim_def job_of_appliance_def new_Job_def)

theorem job_of_appliance_deadline_duration_witness:
  "deadline (scheduler_jobs (initial_sim [app_pump, app_fan]) ! 1) = Some 18
   \<and> duration (scheduler_jobs (initial_sim [app_pump, app_fan]) ! 1) = 180
   \<and> duration (scheduler_jobs (initial_sim [app_pump, app_fan]) ! 0) = 120"
  using job_of_appliance_deadline_duration [of 1 "[app_pump, app_fan]"]
    job_of_appliance_deadline_duration [of 0 "[app_pump, app_fan]"]
  by (simp add: app_pump_def app_fan_def)

text \<open>
  A specification with deadline 6, and one without deadline, both get the deadline 18;
  a specification with duration 0 gets 120 minutes.
\<close>

theorem job_of_appliance_counterexample:
  "deadline (scheduler_jobs (initial_sim [app_pump, app_fan]) ! 0) \<noteq> app_deadlineHour app_pump
   \<and> deadline (scheduler_jobs (initial_sim [app_pump, app_fan]) ! 1) \<noteq> app_deadlineHour app_fan
   \<and> app_duration app_pump = Some 0
   \<and> duration (scheduler_jobs (initial_sim [app_pump, app_fan]) ! 0) \<noteq> 0 * 60"
  by (simp add: initial_sim_def job_of_appliance_def new_Job_def app_pump_def app_fan_def)

section \<open>Properties of the physics models and of the lookups\<close>

subsection \<open>Irradiance\<close>

lemma ln2_ge_half: "1 / 2 \<le> ln (2::real)"
proof -
  have "exp (1 / 2 :: real) \<le> 2" using exp_bound_half [of "1 / 2 :: real"] by simp
  then have "ln (exp (1 / 2 :: real)) \<le> ln 2" by (subst ln_le_cancel_iff) simp_all
  then show ?thesis by (simp only: ln_exp)
qed

lemma ln2_le_one: "ln (2::real) \<le> 1"
proof -
  have "(2::real) \<le> exp 1" using exp_ge_add_one_self [of "1::real"] by simp
  then have "ln (2::real) \<le> ln (exp 1)" by (subst ln_le_cancel_iff) simp_all
  then show ?thesis by simp
qed

lemma two_powr_exp: "(2::real) powr y = exp (y * ln 2)"
  by (simp add: powr_def)

lemma Math_exp_nonneg: "0 \<le> Math_exp x"
  unfolding Math_exp_def by (intro fl_nonneg) simp

lemma Math_exp_pos:
  assumes "- 500 \<le> x"
  shows "0 < Math_exp x"
proof -
  have "- 1075 * ln (2::real) < - 500" using ln2_ge_half by linarith
  with assms have "- 1075 * ln (2::real) < x" by linarith
  then have "exp (- 1075 * ln (2::real)) < exp x" by (simp only: exp_less_cancel_iff)
  then have "2 powr (- 1075) < exp x" by (simp only: two_powr_exp)
  then show ?thesis unfolding Math_exp_def by (rule fl_pos)
qed

lemma Math_exp_underflow:
  assumes "x \<le> - 1075"
  shows "Math_exp x = 0"
proof -
  have "- 1075 \<le> - 1075 * ln (2::real)" using ln2_le_one by linarith
  with assms have "x \<le> - 1075 * ln (2::real)" by linarith
  then have "exp x \<le> exp (- 1075 * ln (2::real))" by (simp only: exp_le_cancel_iff)
  then have "exp x \<le> 2 powr (- 1075)" by (simp only: two_powr_exp)
  then show ?thesis unfolding Math_exp_def by (intro fl_tiny) simp_all
qed

lemma calculateIrradiance_night:
  "sinAlpha d h l \<le> 0 \<Longrightarrow> calculateIrradiance d h l t = 0"
  by (simp add: calculateIrradiance_def Let_def)

lemma calculateIrradiance_nonneg: "0 \<le> calculateIrradiance d h l t"
  by (simp add: calculateIrradiance_def Let_def)

lemma calculateIrradiance_day:
  assumes "1 / 1000 \<le> sinAlpha d h l"
  shows "0 < calculateIrradiance d h l t"
proof -
  define tiltRad where "tiltRad = (case t of None \<Rightarrow> l | Some x \<Rightarrow> x) * D2R"
  define Ibn where "Ibn = 1160 * Math_exp (- (168 / 1000) / sinAlpha d h l)"
  define cosTheta where "cosTheta =
     sin ((l - (case t of None \<Rightarrow> l | Some x \<Rightarrow> x)) * D2R) * sin (deltaRad d)
     + cos ((l - (case t of None \<Rightarrow> l | Some x \<Rightarrow> x)) * D2R) * cos (deltaRad d)
       * cos (15 * (h - 12) * D2R)"
  define I_beam where "I_beam = Ibn * max 0 cosTheta"
  define I_diffuse where "I_diffuse = (95 / 1000) * Ibn * ((1 + cos tiltRad) / 2)"
  define I_reflected where
    "I_reflected = Ibn * (sinAlpha d h l + 95 / 1000) * (2 / 10) * ((1 - cos tiltRad) / 2)"
  have sa: "0 < sinAlpha d h l" using assms by linarith
  have "168 / 1000 \<le> 500 * sinAlpha d h l" using assms by linarith
  then have "(168 / 1000) / sinAlpha d h l \<le> 500" using sa by (simp add: field_simps)
  then have "- 500 \<le> - (168 / 1000) / sinAlpha d h l" by simp
  then have "0 < Math_exp (- (168 / 1000) / sinAlpha d h l)" by (rule Math_exp_pos)
  then have Ibn: "0 < Ibn" by (simp add: Ibn_def)
  have beam: "0 \<le> I_beam" using Ibn by (simp add: I_beam_def)
  have c1: "0 \<le> 1 + cos tiltRad" using cos_ge_minus_one [of tiltRad] by linarith
  have c2: "0 \<le> 1 - cos tiltRad" using cos_le_one [of tiltRad] by linarith
  have diffuse: "0 \<le> I_diffuse" using Ibn c1 by (simp add: I_diffuse_def)
  have reflected: "0 \<le> I_reflected" using Ibn c2 sa by (simp add: I_reflected_def)
  have "0 < I_diffuse + I_reflected"
  proof (cases "0 < 1 + cos tiltRad")
    case True
    then have "0 < I_diffuse" using Ibn by (simp add: I_diffuse_def)
    with reflected show ?thesis by linarith
  next
    case False
    with c1 have "cos tiltRad = - 1" by linarith
    then have "0 < I_reflected" using Ibn sa by (simp add: I_reflected_def)
    with diffuse show ?thesis by linarith
  qed
  with beam have pos: "0 < I_beam + I_diffuse + I_reflected" by linarith
  have day: "\<not> sinAlpha d h l \<le> 0" using sa by simp
  have "calculateIrradiance d h l t = max 0 (I_beam + I_diffuse + I_reflected)"
    unfolding calculateIrradiance_def Let_def I_beam_def I_diffuse_def I_reflected_def
      Ibn_def cosTheta_def tiltRad_def
    by (simp only: day if_False)
  with pos show ?thesis by simp
qed

lemma calculateIrradiance_underflow:
  assumes "sinAlpha d h l \<le> 1 / 6400"
  shows "calculateIrradiance d h l t = 0"
proof (cases "sinAlpha d h l \<le> 0")
  case True
  then show ?thesis by (rule calculateIrradiance_night)
next
  case False
  then have sa: "0 < sinAlpha d h l" by simp
  have "1075 * sinAlpha d h l \<le> 168 / 1000" using assms by linarith
  then have "1075 \<le> (168 / 1000) / sinAlpha d h l" using sa by (simp add: field_simps)
  then have "- (168 / 1000) / sinAlpha d h l \<le> - 1075" by simp
  then have "Math_exp (- (168 / 1000) / sinAlpha d h l) = 0" by (rule Math_exp_underflow)
  then show ?thesis by (simp add: calculateIrradiance_def Let_def)
qed

text \<open>
  Claim C9, as the code has it. \<open>calculateIrradiance\<close> returns 0 whenever the sine of
  the solar altitude is not positive; it never returns a negative value; it returns a
  positive value whenever that sine is at least a thousandth, at solar noon (hour 12)
  as at any other hour; and it returns 0 also for a sun above the horizon whose sine of
  the altitude is at most \<open>1 / 6400\<close>, where the exponential underflows.
\<close>

theorem calculateIrradiance_sign:
  "(sinAlpha d h l \<le> 0 \<longrightarrow> calculateIrradiance d h l t = 0)
   \<and> 0 \<le> calculateIrradiance d h l t
   \<and> (1 / 1000 \<le> sinAlpha d 12 l \<longrightarrow> 0 < calculateIrradiance d 12 l t)
   \<and> (1 / 1000 \<le> sinAlpha d h l \<longrightarrow> 0 < calculateIrradiance d h l t)
   \<and> (sinAlpha d h l \<le> 1 / 6400 \<longrightarrow> calculateIrradiance d h l t = 0)"
  using calculateIrradiance_night [of d h l t] calculateIrradiance_nonneg [of d h l t]
    calculateIrradiance_day [of d 12 l t] calculateIrradiance_day [of d h l t]
    calculateIrradiance_underflow [of d h l t]
  by blast

lemma deltaRad_equinox: "deltaRad 81 = 0"
proof -
  have arg: "(360 / 365) * (284 + 81) * D2R = 2 * pi" by (simp add: D2R_def)
  have "deltaRad 81 = (2345 / 100) * sin (2 * pi) * D2R"
    unfolding deltaRad_def Let_def arg ..
  then show ?thesis by simp
qed

lemma sinAlpha_equinox_noon: "sinAlpha 81 12 l = cos (l * D2R)"
proof -
  have arg: "15 * (12 - 12) * D2R = 0" by simp
  have "sinAlpha 81 12 l = sin (l * D2R) * sin (deltaRad 81)
          + cos (l * D2R) * cos (deltaRad 81) * cos 0"
    unfolding sinAlpha_def Let_def arg ..
  then show ?thesis by (simp add: deltaRad_equinox)
qed

lemma sinAlpha_noon: "sinAlpha 81 12 0 = 1"
  by (simp add: sinAlpha_equinox_noon)

lemma sinAlpha_midnight: "sinAlpha 81 0 0 = - 1"
proof -
  have arg: "15 * (0 - 12) * D2R = - pi" by (simp add: D2R_def)
  have "sinAlpha 81 0 0 = sin (0 * D2R) * sin (deltaRad 81)
          + cos (0 * D2R) * cos (deltaRad 81) * cos (- pi)"
    unfolding sinAlpha_def Let_def arg ..
  then show ?thesis by (simp add: deltaRad_equinox)
qed

text \<open>
  At noon of the equinox (day 81), at the latitude of 89.995 degrees, the sun is above
  the horizon by 0.005 degrees.
\<close>

lemma sinAlpha_near_pole:
  "0 < sinAlpha 81 12 (17999 / 200)" "sinAlpha 81 12 (17999 / 200) \<le> 1 / 9000"
proof -
  have arg: "(17999 / 200) * D2R = pi / 2 - pi / 36000" by (simp add: D2R_def field_simps)
  have "cos (pi / 2 - x) = sin x" for x :: real by (simp add: cos_diff)
  then have "cos (pi / 2 - pi / 36000) = sin (pi / 36000)" .
  then have s: "sinAlpha 81 12 (17999 / 200) = sin (pi / 36000)"
    unfolding sinAlpha_equinox_noon arg .
  have "0 < pi / 36000" "pi / 36000 < pi" by simp_all
  then have "0 < sin (pi / 36000)" by (rule sin_gt_zero)
  then show "0 < sinAlpha 81 12 (17999 / 200)" by (simp only: s)
  have "sin (pi / 36000) \<le> pi / 36000" by (intro sin_x_le_x) simp
  also have "\<dots> \<le> 4 / 36000" using pi_less_4 by simp
  finally show "sinAlpha 81 12 (17999 / 200) \<le> 1 / 9000" by (simp add: s)
qed

theorem calculateIrradiance_sign_witness:
  "sinAlpha 81 0 0 \<le> 0 \<and> calculateIrradiance 81 0 0 None = 0
   \<and> 1 / 1000 \<le> sinAlpha 81 12 0 \<and> 0 < calculateIrradiance 81 12 0 None
   \<and> sinAlpha 81 12 (17999 / 200) \<le> 1 / 6400
   \<and> calculateIrradiance 81 12 (17999 / 200) (Some 0) = 0"
proof -
  have "sinAlpha 81 12 (17999 / 200) \<le> 1 / 6400" using sinAlpha_near_pole(2) by linarith
  with calculateIrradiance_sign [of 81 0 0 None] calculateIrradiance_sign [of 81 12 0 None]
    calculateIrradiance_sign [of 81 12 "17999 / 200" "Some 0"]
  show ?thesis by (simp add: sinAlpha_noon sinAlpha_midnight)
qed

text \<open>
  There, at solar noon with the sun above the horizon, the argument of the exponential
  is below \<open>- 1500\<close>, the exponential underflows to 0, and the irradiance that
  \<open>calculateIrradiance\<close> returns is 0, not positive.
\<close>

theorem calculateIrradiance_underflow_counterexample:
  "0 < sinAlpha 81 12 (17999 / 200)
   \<and> calculateIrradiance 81 12 (17999 / 200) None = 0
   \<and> \<not> 0 < calculateIrradiance 81 12 (17999 / 200) None"
proof -
  have "sinAlpha 81 12 (17999 / 200) \<le> 1 / 6400" using sinAlpha_near_pole(2) by linarith
  then have "calculateIrradiance 81 12 (17999 / 200) None = 0"
    by (rule calculateIrradiance_underflow)
  with sinAlpha_near_pole(1) show ?thesis by simp
qed

lemma getSolarPower_nonneg:
  "(case m of None \<Rightarrow> True | Some x \<Rightarrow> 0 \<le> x) \<Longrightarrow> 0 \<le> getSolarPower h m l d"
  by (cases m)
     (simp_all add: getSolarPower_def Let_def MAX_SOLAR_KW_def SOLAR_EFFICIENCY_def
       calculateIrradiance_nonneg)

lemma getCoolingPowerKw_cool: "hubTemp \<le> TEMP_THRESHOLD \<Longrightarrow> getCoolingPowerKw hubTemp x = 0"
  by (simp add: getCoolingPowerKw_def)

subsection \<open>Lookups\<close>

lemma stamp_map_no_stamps:
  "\<forall>p\<in>set ps. timestamp p = None \<Longrightarrow>
   foldl (\<lambda>m p. case timestamp p of None \<Rightarrow> m | Some t \<Rightarrow> m(t \<mapsto> pvalue p)) m0 ps = m0"
  by (induction ps arbitrary: m0) simp_all

lemma createLookup_const:
  assumes "\<forall>p\<in>set ps. timestamp p = None \<and> pvalue p = c"
    and "0 \<le> h" and "h < real (length ps)"
  shows "createLookup (Some ps) h = Some c"
proof -
  have ne: "length ps \<noteq> 0" using assms(2,3) by auto
  have sm: "stamp_map ps h = None"
    using stamp_map_no_stamps [of ps Map.empty] assms(1) by (simp add: stamp_map_def)
  have lo: "0 \<le> \<lfloor>h\<rfloor>" using assms(2) by simp
  have hi: "\<lfloor>h\<rfloor> < int (length ps)" using assms(3) by (simp add: floor_less_iff)
  then have "nat \<lfloor>h\<rfloor> < length ps" using lo by linarith
  then have "pvalue (ps ! nat \<lfloor>h\<rfloor>) = c" using assms(1) by simp
  with ne sm lo hi show ?thesis by (simp add: createLookup_def Let_def)
qed

section \<open>Properties of the simulation run\<close>

subsection \<open>The loop body, field by field\<close>

lemma sim_body_jobs:
  "scheduler_jobs (sim_body u gs gt cfg st) =
     map (\<lambda>j. snd (deadlineMissed (currentHour st) j))
       (snd (schedule u (solar_at gs cfg (currentHour st)) (currentTemp st) (currentHour st)
               (run_existing (currentHour st) (scheduler_jobs st) (currentlyRunning st))))"
  by (simp add: sim_body_def Let_def solar_at_def)

lemma sim_body_running:
  "currentlyRunning (sim_body u gs gt cfg st) =
     (let jobs1 = run_existing (currentHour st) (scheduler_jobs st) (currentlyRunning st);
          sched = schedule u (solar_at gs cfg (currentHour st)) (currentTemp st) (currentHour st) jobs1
      in add_new (snd sched) (filter (\<lambda>i. status (jobs1 ! i) \<noteq> DONE) (currentlyRunning st))
           (fst sched))"
  by (simp add: sim_body_def Let_def solar_at_def)

lemma run_existing_length: "length (run_existing h js running) = length js"
  unfolding run_existing_def by (induction running arbitrary: js) simp_all

lemma run_existing_other: "i \<notin> set running \<Longrightarrow> run_existing h js running ! i = js ! i"
  unfolding run_existing_def by (induction running arbitrary: js) simp_all

lemma add_new_Cons:
  "add_new js running (a # newJobs) =
     add_new js (if a \<notin> set running \<and> status (js ! a) \<noteq> DONE then running @ [a] else running)
       newJobs"
  by (simp add: add_new_def)

lemma add_new_set: "set (add_new js running newJobs) \<subseteq> set running \<union> set newJobs"
proof (induction newJobs arbitrary: running)
  case Nil
  show ?case by (simp add: add_new_def)
next
  case (Cons a newJobs)
  from Cons [of "if a \<notin> set running \<and> status (js ! a) \<noteq> DONE then running @ [a] else running"]
  show ?case unfolding add_new_Cons by (auto split: if_splits)
qed

lemma step_hour_next: "step_hour n + dtHours = step_hour (Suc n)"
  by (simp add: step_hour_def algebra_simps)

lemma waits_sim_body:
  assumes w: "waits i st" and s: "solar_at gs cfg (currentHour st) < 1"
  shows "waits i ((sim_body True gs gt cfg st)\<lparr> currentHour := currentHour st + dtHours \<rparr>)"
proof -
  let ?h = "currentHour st"
  let ?jobs1 = "run_existing ?h (scheduler_jobs st) (currentlyRunning st)"
  let ?sched = "SmartScheduler_schedule (solar_at gs cfg ?h) (currentTemp st) ?h ?jobs1"
  from w have i: "i < length (scheduler_jobs st)" and nr: "i \<notin> set (currentlyRunning st)"
    and j: "status (scheduler_jobs st ! i) = WAITING" "startHour (scheduler_jobs st ! i) = None"
      "priority (scheduler_jobs st ! i) = Medium" "flexible (scheduler_jobs st ! i)"
    by (simp_all add: waits_def)
  from w obtain n where n: "?h = step_hour n" by (auto simp: waits_def)
  have j1: "?jobs1 ! i = scheduler_jobs st ! i" using nr by (rule run_existing_other)
  have skip: "i \<notin> set (fst ?sched)" "snd ?sched ! i = ?jobs1 ! i"
    using smart_schedule_skips [OF s, of ?jobs1 i "currentTemp st" ?h] j j1 by simp_all
  have len: "length (snd ?sched) = length (scheduler_jobs st)"
    by (simp add: smart_schedule_length run_existing_length)
  have jobs: "scheduler_jobs (sim_body True gs gt cfg st)
                = map (\<lambda>j. snd (deadlineMissed ?h j)) (snd ?sched)"
    by (simp add: sim_body_jobs schedule_def)
  have nth: "scheduler_jobs (sim_body True gs gt cfg st) ! i
               = snd (deadlineMissed ?h (scheduler_jobs st ! i))"
    using i len skip(2) j1 by (simp add: jobs)
  have run: "set (currentlyRunning (sim_body True gs gt cfg st))
               \<subseteq> set (currentlyRunning st) \<union> set (fst ?sched)"
    using add_new_set [of "snd ?sched" "filter (\<lambda>i. status (?jobs1 ! i) \<noteq> DONE) (currentlyRunning st)"
        "fst ?sched"]
    by (auto simp: sim_body_running schedule_def Let_def)
  have "i \<notin> set (currentlyRunning (sim_body True gs gt cfg st))"
    using run nr skip(1) by blast
  moreover have "i < length (scheduler_jobs (sim_body True gs gt cfg st))"
    using i len by (simp add: jobs)
  moreover have "currentHour st + dtHours = step_hour (Suc n)"
    by (simp add: n step_hour_next)
  ultimately show ?thesis
    using j by (auto simp: waits_def nth)
qed

lemma sim_loop_waits:
  "u \<Longrightarrow>
   \<forall>n. step_hour n < SIMULATION_END_HOUR \<longrightarrow> solar_at gs cfg (step_hour n) < 1 \<Longrightarrow>
   waits i st \<Longrightarrow> waits i (sim_loop u gs gt cfg st)"
proof (induction u gs gt cfg st rule: sim_loop.induct)
  case (1 useSmart getSolar getTemp config st)
  show ?case
  proof (cases "currentHour st < SIMULATION_END_HOUR")
    case True
    from "1.prems"(3) obtain n where n: "currentHour st = step_hour n" by (auto simp: waits_def)
    with True "1.prems"(2) have s: "solar_at getSolar config (currentHour st) < 1" by simp
    from "1.prems"(1) have u: "useSmart = True" by simp
    have "waits i ((sim_body useSmart getSolar getTemp config st)
                     \<lparr> currentHour := currentHour st + dtHours \<rparr>)"
      unfolding u using "1.prems"(3) s by (rule waits_sim_body)
    from "1.IH" [OF True "1.prems"(1) "1.prems"(2) this] True show ?thesis
      by (subst sim_loop.simps) simp
  next
    case False
    with "1.prems" show ?thesis by (subst sim_loop.simps) simp
  qed
qed

lemma sim_steps_waits:
  "\<forall>n. step_hour n < SIMULATION_END_HOUR \<longrightarrow> solar_at gs cfg (step_hour n) < 1 \<Longrightarrow>
   waits i st \<Longrightarrow> waits i (sim_steps m True gs gt cfg st)"
proof (induction m arbitrary: st)
  case 0
  then show ?case by simp
next
  case (Suc m)
  show ?case
  proof (cases "currentHour st < SIMULATION_END_HOUR")
    case True
    from Suc.prems(2) obtain n where n: "currentHour st = step_hour n" by (auto simp: waits_def)
    with True Suc.prems(1) have s: "solar_at gs cfg (currentHour st) < 1" by simp
    have "waits i ((sim_body True gs gt cfg st)\<lparr> currentHour := currentHour st + dtHours \<rparr>)"
      using Suc.prems(2) s by (rule waits_sim_body)
    from Suc.IH [OF Suc.prems(1) this] True show ?thesis by simp
  next
    case False
    with Suc.prems show ?thesis by simp
  qed
qed

subsection \<open>The loop runs 144 iterations\<close>

lemma sim_loop_steps:
  "sim_loop u gs gt cfg st
     = sim_steps (nat \<lceil>(SIMULATION_END_HOUR - currentHour st) * 6\<rceil>) u gs gt cfg st"
proof (induction u gs gt cfg st rule: sim_loop.induct)
  case (1 useSmart getSolar getTemp config st)
  show ?case
  proof (cases "currentHour st < SIMULATION_END_HOUR")
    case True
    have step: "(SIMULATION_END_HOUR - (currentHour st + dtHours)) * 6
                = (SIMULATION_END_HOUR - currentHour st) * 6 - 1"
      by (simp add: dtHours_def TIME_STEP_MINUTES_def algebra_simps)
    have "0 < (SIMULATION_END_HOUR - currentHour st) * 6" using True by simp
    then have pos: "0 < \<lceil>(SIMULATION_END_HOUR - currentHour st) * 6\<rceil>" by simp
    have "\<lceil>(SIMULATION_END_HOUR - currentHour st) * 6 - 1\<rceil>
            = \<lceil>(SIMULATION_END_HOUR - currentHour st) * 6\<rceil> - 1"
      by (rule ceiling_diff_one)
    with pos have fuel: "nat \<lceil>(SIMULATION_END_HOUR - currentHour st) * 6\<rceil>
        = Suc (nat \<lceil>(SIMULATION_END_HOUR - (currentHour st + dtHours)) * 6\<rceil>)"
      unfolding step by linarith
    have hour': "currentHour ((sim_body useSmart getSolar getTemp config st)
                   \<lparr> currentHour := currentHour st + dtHours \<rparr>) = currentHour st + dtHours"
      by simp
    have "sim_loop useSmart getSolar getTemp config st
            = sim_loop useSmart getSolar getTemp config
                ((sim_body useSmart getSolar getTemp config st)
                   \<lparr> currentHour := currentHour st + dtHours \<rparr>)"
      using True by (subst sim_loop.simps) (simp only: if_True)
    also have "\<dots> = sim_steps (nat \<lceil>(SIMULATION_END_HOUR - (currentHour st + dtHours)) * 6\<rceil>)
                        useSmart getSolar getTemp config
                        ((sim_body useSmart getSolar getTemp config st)
                           \<lparr> currentHour := currentHour st + dtHours \<rparr>)"
      using "1.IH" [OF True] unfolding hour' .
    also have "\<dots> = sim_steps (nat \<lceil>(SIMULATION_END_HOUR - currentHour st) * 6\<rceil>)
                        useSmart getSolar getTemp config st"
      unfolding fuel using True by (simp only: sim_steps.simps if_True)
    finally show ?thesis .
  next
    case False
    then have "(SIMULATION_END_HOUR - currentHour st) * 6 \<le> 0" by simp
    then have "\<lceil>(SIMULATION_END_HOUR - currentHour st) * 6\<rceil> \<le> 0"
      by (simp only: ceiling_le_zero)
    then have fuel0: "nat \<lceil>(SIMULATION_END_HOUR - currentHour st) * 6\<rceil> = 0" by simp
    have "sim_loop useSmart getSolar getTemp config st = st"
      using False by (subst sim_loop.simps) simp
    then show ?thesis unfolding fuel0 by simp
  qed
qed

lemma final_sim_steps:
  "final_sim apps fs config u
     = sim_steps 144 u (createLookup (solar fs)) (createLookup (weather fs)) config
         (initial_sim apps)"
proof -
  have "currentHour (initial_sim apps) = 0"
    by (simp add: initial_sim_def SIMULATION_START_HOUR_def)
  then have "nat \<lceil>(SIMULATION_END_HOUR - currentHour (initial_sim apps)) * 6\<rceil> = 144"
    by (simp add: SIMULATION_END_HOUR_def)
  then show ?thesis by (simp add: final_sim_def sim_loop_steps)
qed

subsection \<open>A medium job without solar power\<close>

lemma step_hour_0: "SIMULATION_START_HOUR = step_hour 0"
  by (simp add: step_hour_def)

lemma waits_initial:
  assumes "k < length apps" and "normalizePriority (app_priority (apps ! k)) = Medium"
    and "app_flexible (apps ! k) \<noteq> Some False"
  shows "waits k (initial_sim apps)"
proof -
  have "\<exists>n. SIMULATION_START_HOUR = step_hour n" using step_hour_0 by blast
  with assms show ?thesis
    by (simp add: waits_def initial_sim_def job_of_appliance_def new_Job_def)
qed

text \<open>
  Claim C7. A call of \<open>SmartScheduler.schedule\<close> with \<open>solarAvailableKw < 1\<close> neither
  returns nor changes a medium job that is flexible. And in a run with the smart
  scheduler in which the solar availability is below 1 kW (0 for instance) at every
  step, a medium, flexible job of the job list is WAITING and outside the set of running
  jobs after every number of iterations, and at the end of the run: its status in the
  returned timeline is WAITING, and it has no start hour.
\<close>

theorem smart_medium_flexible_waits_for_solar:
  "(s < 1 \<and> i < length js \<and> priority (js ! i) = Medium \<and> flexible (js ! i) \<longrightarrow>
      i \<notin> set (fst (SmartScheduler_schedule s t h js))
      \<and> snd (SmartScheduler_schedule s t h js) ! i = js ! i)
   \<and> ((\<forall>n. step_hour n < SIMULATION_END_HOUR \<longrightarrow>
            solar_at (createLookup (solar fs)) config (step_hour n) < 1)
       \<and> k < length apps \<and> normalizePriority (app_priority (apps ! k)) = Medium
       \<and> app_flexible (apps ! k) \<noteq> Some False \<longrightarrow>
         (\<forall>m. status (scheduler_jobs (sim_steps m True (createLookup (solar fs))
                         (createLookup (weather fs)) config (initial_sim apps)) ! k) = WAITING
              \<and> k \<notin> set (currentlyRunning (sim_steps m True (createLookup (solar fs))
                         (createLookup (weather fs)) config (initial_sim apps))))
         \<and> status (scheduler_jobs (final_sim apps fs config True) ! k) = WAITING
         \<and> startHour (scheduler_jobs (final_sim apps fs config True) ! k) = None
         \<and> k \<notin> set (currentlyRunning (final_sim apps fs config True))
         \<and> ev_status (timeline (runSmartSimulation apps fs config True) ! k) = WAITING
         \<and> ev_start (timeline (runSmartSimulation apps fs config True) ! k) = None)"
proof -
  have call: "s < 1 \<and> i < length js \<and> priority (js ! i) = Medium \<and> flexible (js ! i) \<longrightarrow>
      i \<notin> set (fst (SmartScheduler_schedule s t h js))
      \<and> snd (SmartScheduler_schedule s t h js) ! i = js ! i"
    using smart_schedule_skips [of s js i t h] by blast
  have run: "(\<forall>m. status (scheduler_jobs (sim_steps m True (createLookup (solar fs))
                         (createLookup (weather fs)) config (initial_sim apps)) ! k) = WAITING
              \<and> k \<notin> set (currentlyRunning (sim_steps m True (createLookup (solar fs))
                         (createLookup (weather fs)) config (initial_sim apps))))
         \<and> status (scheduler_jobs (final_sim apps fs config True) ! k) = WAITING
         \<and> startHour (scheduler_jobs (final_sim apps fs config True) ! k) = None
         \<and> k \<notin> set (currentlyRunning (final_sim apps fs config True))
         \<and> ev_status (timeline (runSmartSimulation apps fs config True) ! k) = WAITING
         \<and> ev_start (timeline (runSmartSimulation apps fs config True) ! k) = None"
    if sol: "\<forall>n. step_hour n < SIMULATION_END_HOUR \<longrightarrow>
            solar_at (createLookup (solar fs)) config (step_hour n) < 1"
      and k: "k < length apps" "normalizePriority (app_priority (apps ! k)) = Medium"
        "app_flexible (apps ! k) \<noteq> Some False"
  proof -
    have w0: "waits k (initial_sim apps)" using k by (rule waits_initial)
    have steps: "waits k (sim_steps m True (createLookup (solar fs))
                         (createLookup (weather fs)) config (initial_sim apps))" for m
      using sol w0 by (rule sim_steps_waits)
    have "waits k (final_sim apps fs config True)"
      unfolding final_sim_def using _ sol w0 by (rule sim_loop_waits) simp
    then have fin: "k < length (scheduler_jobs (final_sim apps fs config True))"
      "status (scheduler_jobs (final_sim apps fs config True) ! k) = WAITING"
      "startHour (scheduler_jobs (final_sim apps fs config True) ! k) = None"
      "k \<notin> set (currentlyRunning (final_sim apps fs config True))"
      by (simp_all add: waits_def)
    have tl: "ev_status (timeline (runSmartSimulation apps fs config True) ! k) = WAITING"
      "ev_start (timeline (runSmartSimulation apps fs config True) ! k) = None"
      using fin by (simp_all add: runSmartSimulation_def Let_def)
    from steps fin tl show ?thesis by (simp add: waits_def)
  qed
  from call run show ?thesis by blast
qed

lemma np_Medium: "normalizePriority ''Medium'' = Medium"
  by code_simp

lemma step_hour_range: "step_hour n < SIMULATION_END_HOUR \<Longrightarrow> 0 \<le> step_hour n \<and> step_hour n < 24"
  by (simp add: step_hour_def SIMULATION_START_HOUR_def SIMULATION_END_HOUR_def dtHours_def
      TIME_STEP_MINUTES_def)

lemma dark_day_lookup:
  "step_hour n < SIMULATION_END_HOUR \<Longrightarrow> createLookup (Some dark_day) (step_hour n) = Some 0"
  using step_hour_range [of n]
  by (intro createLookup_const) (simp_all add: dark_day_def)

lemma cool_day_lookup:
  "step_hour n < SIMULATION_END_HOUR \<Longrightarrow> createLookup (Some cool_day) (step_hour n) = Some 20"
  using step_hour_range [of n]
  by (intro createLookup_const) (simp_all add: cool_day_def)

theorem smart_medium_flexible_waits_for_solar_witness:
  "status (scheduler_jobs
             (final_sim [app_pump, app_fan] \<lparr> solar = Some dark_day, weather = None, loads = None \<rparr>
                no_config True) ! 1) = WAITING
   \<and> ev_start (timeline
             (runSmartSimulation [app_pump, app_fan]
                \<lparr> solar = Some dark_day, weather = None, loads = None \<rparr> no_config True) ! 1) = None"
proof -
  have sol: "\<forall>n. step_hour n < SIMULATION_END_HOUR \<longrightarrow>
            solar_at (createLookup (solar \<lparr> solar = Some dark_day, weather = None, loads = None \<rparr>))
              no_config (step_hour n) < 1"
    by (simp add: solar_at_def dark_day_lookup)
  have k: "(1::nat) < length [app_pump, app_fan]"
    "normalizePriority (app_priority ([app_pump, app_fan] ! 1)) = Medium"
    "app_flexible ([app_pump, app_fan] ! 1) \<noteq> Some False"
    by (simp_all add: app_fan_def np_Medium)
  from smart_medium_flexible_waits_for_solar
    [of 0 0 "[]" 0 0 "\<lparr> solar = Some dark_day, weather = None, loads = None \<rparr>" no_config 1
       "[app_pump, app_fan]"] sol k
  show ?thesis by blast
qed

subsection \<open>The run of an empty job list\<close>

lemma schedule_empty: "schedule u s t h [] = ([], [])"
  by (simp add: schedule_def SmartScheduler_schedule_def BaselineScheduler_schedule_def
      waiting_refs_def prioritizeJobs_def smart_loop_def Let_def)

lemma run_existing_empty: "run_existing h [] [] = []"
  by (simp add: run_existing_def)

lemma add_new_empty: "add_new js [] [] = []"
  by (simp add: add_new_def)

lemma idle_sim_body:
  assumes i: "idle st" and s: "0 \<le> solar_at gs cfg (currentHour st)"
    and a: "temp_at gt cfg (currentHour st) \<le> TEMP_THRESHOLD"
  shows "idle ((sim_body u gs gt cfg st)\<lparr> currentHour := currentHour st + dtHours \<rparr>)"
proof -
  from i have e: "scheduler_jobs st = []" "currentlyRunning st = []"
    "solarEnergy st = 0" "gridEnergy st = 0" "coolingEnergy st = 0"
    and c: "currentTemp st \<le> TEMP_THRESHOLD"
    by (simp_all add: idle_def)
  from i obtain n where n: "currentHour st = step_hour n" by (auto simp: idle_def)
  have cool: "getCoolingPowerKw (currentTemp st) 0 = 0"
    using c by (rule getCoolingPowerKw_cool)
  have sa: "(case gs (currentHour st) of Some v \<Rightarrow> v
            | None \<Rightarrow> getSolarPower (currentHour st) (maxSolarKw cfg) (latitude cfg) (dayOfYear cfg))
           = solar_at gs cfg (currentHour st)"
    by (simp add: solar_at_def)
  have ta: "(case gt (currentHour st) of Some v \<Rightarrow> v
            | None \<Rightarrow> getAmbientTemp (currentHour st) (minTemp cfg) (maxTemp cfg))
           = temp_at gt cfg (currentHour st)"
    by (simp add: temp_at_def)
  have used: "min 0 (solar_at gs cfg (currentHour st)) = 0" using s by simp
  have jobs: "scheduler_jobs (sim_body u gs gt cfg st) = []"
    by (simp add: sim_body_jobs e run_existing_empty schedule_empty)
  have running: "currentlyRunning (sim_body u gs gt cfg st) = []"
    by (simp add: sim_body_running e run_existing_empty schedule_empty add_new_empty)
  have solarE: "solarEnergy (sim_body u gs gt cfg st) = 0"
    unfolding sim_body_def Let_def sa ta
    by (simp add: e run_existing_empty schedule_empty add_new_empty used)
  have gridE: "gridEnergy (sim_body u gs gt cfg st) = 0"
    unfolding sim_body_def Let_def sa ta
    by (simp add: e run_existing_empty schedule_empty add_new_empty used cool)
  have coolE: "coolingEnergy (sim_body u gs gt cfg st) = 0"
    unfolding sim_body_def Let_def sa ta
    by (simp add: e run_existing_empty schedule_empty add_new_empty cool)
  have "currentTemp (sim_body u gs gt cfg st)
          = currentTemp st - THERMAL_DISSIPATION * (currentTemp st - temp_at gt cfg (currentHour st))"
    unfolding sim_body_def Let_def sa ta
    by (simp add: e run_existing_empty schedule_empty add_new_empty cool)
  then have temp: "currentTemp (sim_body u gs gt cfg st) \<le> TEMP_THRESHOLD"
    using c a by (simp add: THERMAL_DISSIPATION_def TEMP_THRESHOLD_def field_simps)
  have "currentHour st + dtHours = step_hour (Suc n)"
    by (simp add: n step_hour_next)
  with jobs running solarE gridE coolE temp show ?thesis
    by (auto simp: idle_def)
qed

lemma sim_loop_idle:
  "\<forall>n. step_hour n < SIMULATION_END_HOUR \<longrightarrow>
        0 \<le> solar_at gs cfg (step_hour n) \<and> temp_at gt cfg (step_hour n) \<le> TEMP_THRESHOLD \<Longrightarrow>
   idle st \<Longrightarrow> idle (sim_loop u gs gt cfg st)"
proof (induction u gs gt cfg st rule: sim_loop.induct)
  case (1 useSmart getSolar getTemp config st)
  show ?case
  proof (cases "currentHour st < SIMULATION_END_HOUR")
    case True
    from "1.prems"(2) obtain n where n: "currentHour st = step_hour n" by (auto simp: idle_def)
    with True "1.prems"(1) have s: "0 \<le> solar_at getSolar config (currentHour st)"
      and a: "temp_at getTemp config (currentHour st) \<le> TEMP_THRESHOLD" by simp_all
    have "idle ((sim_body useSmart getSolar getTemp config st)
                     \<lparr> currentHour := currentHour st + dtHours \<rparr>)"
      using "1.prems"(2) s a by (rule idle_sim_body)
    from "1.IH" [OF True "1.prems"(1) this] True show ?thesis
      by (subst sim_loop.simps) simp
  next
    case False
    with "1.prems" show ?thesis by (subst sim_loop.simps) simp
  qed
qed

lemma idle_initial: "idle (initial_sim [])"
proof -
  have "\<exists>n. SIMULATION_START_HOUR = step_hour n" using step_hour_0 by blast
  then show ?thesis
    by (simp add: idle_def initial_sim_def IDEAL_TEMP_def TEMP_THRESHOLD_def)
qed

text \<open>
  Claim C10. For an empty job list, when at every step the solar availability is not
  negative and the ambient temperature does not exceed \<open>TEMP_THRESHOLD\<close>, the
  accumulated solar and grid energies are 0 at the end of the run, and the returned
  \<open>energy.solarPct\<close> is the quotient of 0 by 0, NaN: the division has no guard. An
  input of this kind: no appliances, an uploaded ambient temperature of 20 degrees around
  the clock, and the default configuration.
\<close>

theorem empty_run_solarPct_NaN:
  assumes "\<forall>n. step_hour n < SIMULATION_END_HOUR \<longrightarrow>
             0 \<le> solar_at (createLookup (solar fs)) config (step_hour n)
             \<and> temp_at (createLookup (weather fs)) config (step_hour n) \<le> TEMP_THRESHOLD"
  shows "solarEnergy (final_sim [] fs config u) = 0
       \<and> gridEnergy (final_sim [] fs config u) = 0
       \<and> energy_solar (runSmartSimulation [] fs config u) = 0
       \<and> energy_grid (runSmartSimulation [] fs config u) = 0
       \<and> energy_total (runSmartSimulation [] fs config u) = 0
       \<and> energy_solarPct (runSmartSimulation [] fs config u) = NaN"
proof -
  have "idle (final_sim [] fs config u)"
    unfolding final_sim_def using assms idle_initial by (rule sim_loop_idle)
  then have "solarEnergy (final_sim [] fs config u) = 0"
    "gridEnergy (final_sim [] fs config u) = 0" "coolingEnergy (final_sim [] fs config u) = 0"
    by (simp_all add: idle_def)
  then show ?thesis
    by (simp add: runSmartSimulation_def Let_def js_div_def js_times_def)
qed

theorem empty_run_solarPct_NaN_witness:
  "energy_total (runSmartSimulation []
      \<lparr> solar = None, weather = Some cool_day, loads = None \<rparr> no_config True) = 0
   \<and> energy_solarPct (runSmartSimulation []
      \<lparr> solar = None, weather = Some cool_day, loads = None \<rparr> no_config True) = NaN"
proof -
  have "\<forall>n. step_hour n < SIMULATION_END_HOUR \<longrightarrow>
          0 \<le> solar_at (createLookup (solar \<lparr> solar = None, weather = Some cool_day, loads = None \<rparr>))
                 no_config (step_hour n)
          \<and> temp_at (createLookup (weather \<lparr> solar = None, weather = Some cool_day, loads = None \<rparr>))
                 no_config (step_hour n) \<le> TEMP_THRESHOLD"
  proof (intro allI impI conjI)
    fix n
    show "0 \<le> solar_at (createLookup (solar \<lparr> solar = None, weather = Some cool_day, loads = None \<rparr>))
                 no_config (step_hour n)"
      by (simp add: solar_at_def createLookup_def no_config_def getSolarPower_nonneg)
  next
    fix n assume "step_hour n < SIMULATION_END_HOUR"
    then show "temp_at (createLookup (weather \<lparr> solar = None, weather = Some cool_day, loads = None \<rparr>))
                 no_config (step_hour n) \<le> TEMP_THRESHOLD"
      by (simp add: temp_at_def cool_day_lookup TEMP_THRESHOLD_def)
  qed
  from empty_run_solarPct_NaN [OF this, of True] show ?thesis by blast
qed


end
